theory Spec2Isabelle
  imports Complex_Main "HOL-Library.AList" "HOL-Library.Word"
begin

section \<open>The storage handle\<close>

text \<open>
  \<^verbatim>\<open>examples/sqlite_trace.py\<close> writes through a \<^verbatim>\<open>sqlite3.Connection\<close>. The connection
  is a library object, so this section is the model of the library the source runs
  against: tables of rows of SQL values, a working state that \<^verbatim>\<open>commit()\<close> makes durable,
  and the three ways a call can raise.

  A table keeps its column declarations, its rows in insertion order and the largest
  rowid it has handed out. The tables of a database are an association list in creation
  order, so a second table of the same name would be visible as a duplicate key.
\<close>

type_synonym bytes = "8 word list"

datatype sql_value = SqlNull | SqlInteger int | SqlReal real | SqlText string | SqlBlob bytes

datatype sql_type = INTEGER | REAL | TEXT | BLOB

datatype column_constraint = NOT_NULL | PRIMARY_KEY_AUTOINCREMENT | REFERENCES string string

datatype column = Column (cname: string) (ctype: sql_type) (constraints: "column_constraint list")

record table =
  columns :: "column list"
  rows :: "sql_value list list"
  last_rowid :: int

type_synonym database = "(string \<times> table) list"

datatype error = OperationalError string | IntegrityError string | ProgrammingError string

text \<open>
  \<open>durable\<close> is what has been committed, \<open>current\<close> is what the connection sees (the
  durable state and the open transaction's changes). \<open>faults\<close> is the environment's
  verdict on the coming storage calls, one entry per call: \<open>None\<close> lets the call run,
  \<open>Some e\<close> makes it raise \<open>e\<close> (a locked database, an I/O error). A call that raises
  leaves the tables as they were, and a failed commit leaves the transaction open.
  A timestamp (\<^verbatim>\<open>time.time()\<close>, a float) is a \<open>real\<close>.
\<close>

record connection =
  durable :: database
  current :: database
  faults :: "error option list"
  is_closed :: bool

definition next_fault :: "connection \<Rightarrow> error option \<times> connection" where
  "next_fault conn =
     (case faults conn of
        [] \<Rightarrow> (None, conn)
      | f # fs \<Rightarrow> (f, conn\<lparr>faults := fs\<rparr>))"

definition closed_error :: error where
  "closed_error = ProgrammingError ''Cannot operate on a closed database.''"

text \<open>
  \<^verbatim>\<open>INSERT INTO t(names) VALUES (vals)\<close>: a column takes the value bound to its name; an
  unnamed \<^verbatim>\<open>INTEGER PRIMARY KEY AUTOINCREMENT\<close> column takes the new rowid, any other unnamed
  column is NULL. SQLite does not enforce \<^verbatim>\<open>REFERENCES\<close> unless asked to, and the source
  does not ask.
\<close>

definition bound_value :: "string list \<Rightarrow> sql_value list \<Rightarrow> int \<Rightarrow> column \<Rightarrow> sql_value" where
  "bound_value names vals rowid c =
     (case map_of (zip names vals) (cname c) of
        Some v \<Rightarrow> v
      | None \<Rightarrow> if PRIMARY_KEY_AUTOINCREMENT \<in> set (constraints c) then SqlInteger rowid else SqlNull)"

definition violates_not_null :: "column \<times> sql_value \<Rightarrow> bool" where
  "violates_not_null cv = (NOT_NULL \<in> set (constraints (fst cv)) \<and> snd cv = SqlNull)"

definition insert_row :: "table \<Rightarrow> string list \<Rightarrow> sql_value list \<Rightarrow> error + (int \<times> table)" where
  "insert_row t names vals =
     (if length names \<noteq> length vals then
        Inl (ProgrammingError ''Incorrect number of bindings supplied.'')
      else if list_ex (\<lambda>n. n \<notin> set (map cname (columns t))) names then
        Inl (OperationalError ''table has no such column'')
      else
        let rowid = last_rowid t + 1;
            row = map (bound_value names vals rowid) (columns t)
        in if list_ex violates_not_null (zip (columns t) row) then
             Inl (IntegrityError ''NOT NULL constraint failed'')
           else Inr (rowid, t\<lparr>rows := rows t @ [row], last_rowid := rowid\<rparr>))"

text \<open>\<^verbatim>\<open>conn.execute("INSERT ...", params)\<close>; the result is the cursor's \<^verbatim>\<open>lastrowid\<close>.\<close>

definition execute_insert ::
  "connection \<Rightarrow> string \<Rightarrow> string list \<Rightarrow> sql_value list \<Rightarrow> (error + int) \<times> connection" where
  "execute_insert conn tname names vals =
     (if is_closed conn then (Inl closed_error, conn)
      else case next_fault conn of
        (Some e, conn') \<Rightarrow> (Inl e, conn')
      | (None, conn') \<Rightarrow>
          (case map_of (current conn') tname of
             None \<Rightarrow> (Inl (OperationalError (''no such table: '' @ tname)), conn')
           | Some t \<Rightarrow>
               (case insert_row t names vals of
                  Inl e \<Rightarrow> (Inl e, conn')
                | Inr (rowid, t') \<Rightarrow>
                    (Inr rowid, conn'\<lparr>current := AList.update tname t' (current conn')\<rparr>))))"

text \<open>\<^verbatim>\<open>conn.commit()\<close>.\<close>

definition commit :: "connection \<Rightarrow> (error + unit) \<times> connection" where
  "commit conn =
     (if is_closed conn then (Inl closed_error, conn)
      else case next_fault conn of
        (Some e, conn') \<Rightarrow> (Inl e, conn')
      | (None, conn') \<Rightarrow> (Inr (), conn'\<lparr>durable := current conn'\<rparr>))"

text \<open>
  \<^verbatim>\<open>conn.executescript(script)\<close> commits the open transaction and then runs the script's
  statements outside a transaction, so each takes effect durably at once. The only
  statement the source's script has is \<^verbatim>\<open>CREATE TABLE IF NOT EXISTS\<close>, which does nothing
  when a table of that name exists, whatever its columns.
\<close>

datatype statement = CREATE_TABLE_IF_NOT_EXISTS string "column list"

fun run_statement :: "database \<Rightarrow> statement \<Rightarrow> database" where
  "run_statement db (CREATE_TABLE_IF_NOT_EXISTS name cols) =
     (case map_of db name of
        Some t \<Rightarrow> db
      | None \<Rightarrow> db @ [(name, \<lparr>columns = cols, rows = [], last_rowid = 0\<rparr>)])"

definition executescript :: "connection \<Rightarrow> statement list \<Rightarrow> (error + unit) \<times> connection" where
  "executescript conn script =
     (if is_closed conn then (Inl closed_error, conn)
      else case next_fault conn of
        (Some e, conn') \<Rightarrow> (Inl e, conn')
      | (None, conn') \<Rightarrow>
          (let db = foldl run_statement (current conn') script
           in (Inr (), conn'\<lparr>durable := db, current := db\<rparr>)))"

section \<open>The clock and the identifier generator\<close>

text \<open>
  \<^verbatim>\<open>time.time()\<close> and \<^verbatim>\<open>uuid.uuid4().hex\<close> read the outside world. The environment holds
  what each successive call returns and how many calls have been made.
\<close>

record env =
  clock :: "nat \<Rightarrow> real"
  ticks :: nat
  uuid_source :: "nat \<Rightarrow> string"
  drawn :: nat

definition time_time :: "env \<Rightarrow> real \<times> env" where
  "time_time e = (clock e (ticks e), e\<lparr>ticks := Suc (ticks e)\<rparr>)"

definition uuid4_hex :: "env \<Rightarrow> string \<times> env" where
  "uuid4_hex e = (uuid_source e (drawn e), e\<lparr>drawn := Suc (drawn e)\<rparr>)"

section \<open>Header serialization\<close>

text \<open>
  \<^verbatim>\<open>_serialize_headers(headers) = json.dumps(list(headers))\<close>. A Python \<^verbatim>\<open>str\<close> is a sequence
  of code points, and what \<^verbatim>\<open>json.dumps\<close> writes for a character depends on its code
  point, so a header name or value is a list of code points (\<open>nat\<close>). The result is
  ASCII text, a \<open>string\<close>.

  \<^verbatim>\<open>json.dumps\<close> is called with its defaults: \<^verbatim>\<open>ensure_ascii=True\<close> and the separator
  \<^verbatim>\<open>", "\<close>. A tuple is written as an array. In a string, the backslash, the double
  quote and the characters outside \<^verbatim>\<open>' '..'~'\<close> are escaped: by a short escape where JSON
  has one, else by \<^verbatim>\<open>\uXXXX\<close> (four lower-case hex digits), and a code point above
  \<^verbatim>\<open>0xFFFF\<close> by the two \<^verbatim>\<open>\uXXXX\<close> of its UTF-16 surrogate pair.
\<close>

type_synonym pystr = "nat list"

definition backslash :: char where
  "backslash = CHR 0x5C"

definition dquote :: char where
  "dquote = CHR 0x22"

definition hex_digit :: "nat \<Rightarrow> char" where
  "hex_digit d = (if d < 10 then char_of (48 + d) else char_of (87 + d))"

definition hex4 :: "nat \<Rightarrow> string" where
  "hex4 n = map hex_digit [n div 4096 mod 16, n div 256 mod 16, n div 16 mod 16, n mod 16]"

definition u_escape :: "nat \<Rightarrow> string" where
  "u_escape n = backslash # CHR ''u'' # hex4 n"

definition escape_char :: "nat \<Rightarrow> string" where
  "escape_char n =
     (if n = 0x5C then [backslash, backslash]
      else if n = 0x22 then [backslash, dquote]
      else if n = 0x08 then [backslash, CHR ''b'']
      else if n = 0x0C then [backslash, CHR ''f'']
      else if n = 0x0A then [backslash, CHR ''n'']
      else if n = 0x0D then [backslash, CHR ''r'']
      else if n = 0x09 then [backslash, CHR ''t'']
      else if 0x20 \<le> n \<and> n \<le> 0x7E then [char_of n]
      else if n < 0x10000 then u_escape n
      else let v = n - 0x10000
           in u_escape (0xD800 + v div 1024 mod 1024) @ u_escape (0xDC00 + v mod 1024))"

definition encode_str :: "pystr \<Rightarrow> string" where
  "encode_str s = dquote # concat (map escape_char s) @ [dquote]"

fun join :: "string \<Rightarrow> string list \<Rightarrow> string" where
  "join sep [] = []"
| "join sep [x] = x"
| "join sep (x # y # ys) = x @ sep @ join sep (y # ys)"

definition dumps_pair :: "pystr \<times> pystr \<Rightarrow> string" where
  "dumps_pair p = ''['' @ encode_str (fst p) @ '', '' @ encode_str (snd p) @ '']''"

definition serialize_headers :: "(pystr \<times> pystr) list \<Rightarrow> string" where
  "serialize_headers headers = ''['' @ join '', '' (map dumps_pair headers) @ '']''"

section \<open>Schema initialization\<close>

definition schema_script :: "statement list" where
  "schema_script =
     [CREATE_TABLE_IF_NOT_EXISTS ''events''
        [Column ''id'' INTEGER [PRIMARY_KEY_AUTOINCREMENT],
         Column ''ts'' REAL [NOT_NULL],
         Column ''request_id'' TEXT [NOT_NULL],
         Column ''event_type'' TEXT [NOT_NULL]],
      CREATE_TABLE_IF_NOT_EXISTS ''request_start''
        [Column ''event_id'' INTEGER [NOT_NULL, REFERENCES ''events'' ''id''],
         Column ''method'' TEXT [NOT_NULL],
         Column ''url'' TEXT [NOT_NULL],
         Column ''headers'' TEXT [NOT_NULL]],
      CREATE_TABLE_IF_NOT_EXISTS ''request_end''
        [Column ''event_id'' INTEGER [NOT_NULL, REFERENCES ''events'' ''id''],
         Column ''status'' INTEGER [NOT_NULL],
         Column ''reason'' TEXT [],
         Column ''headers'' TEXT [NOT_NULL],
         Column ''elapsed'' REAL [NOT_NULL]],
      CREATE_TABLE_IF_NOT_EXISTS ''request_exception''
        [Column ''event_id'' INTEGER [NOT_NULL, REFERENCES ''events'' ''id''],
         Column ''exception'' TEXT [NOT_NULL]],
      CREATE_TABLE_IF_NOT_EXISTS ''request_chunk''
        [Column ''event_id'' INTEGER [NOT_NULL, REFERENCES ''events'' ''id''],
         Column ''chunk_index'' INTEGER [NOT_NULL],
         Column ''size'' INTEGER [NOT_NULL],
         Column ''payload'' BLOB [NOT_NULL]],
      CREATE_TABLE_IF_NOT_EXISTS ''response_chunk''
        [Column ''event_id'' INTEGER [NOT_NULL, REFERENCES ''events'' ''id''],
         Column ''chunk_index'' INTEGER [NOT_NULL],
         Column ''size'' INTEGER [NOT_NULL],
         Column ''payload'' BLOB [NOT_NULL]]]"

text \<open>A function that raises returns the error; \<open>None\<close> is a normal return.\<close>

definition init_sqlite :: "connection \<Rightarrow> error option \<times> connection" where
  "init_sqlite conn =
     (case executescript conn schema_script of
        (Inl e, conn1) \<Rightarrow> (Some e, conn1)
      | (Inr u, conn1) \<Rightarrow>
          (case commit conn1 of
             (Inl e, conn2) \<Rightarrow> (Some e, conn2)
           | (Inr u', conn2) \<Rightarrow> (None, conn2)))"

section \<open>The event log writer\<close>

text \<open>
  \<^verbatim>\<open>_insert_event\<close>: the parameter tuple is built first, so the clock is read before the
  insert is tried.
\<close>

definition insert_event ::
  "connection \<Rightarrow> env \<Rightarrow> string \<Rightarrow> string \<Rightarrow> (error + int) \<times> connection \<times> env" where
  "insert_event conn e rid event_type =
     (case time_time e of
        (now, e') \<Rightarrow>
          (case execute_insert conn ''events'' [''ts'', ''request_id'', ''event_type'']
                  [SqlReal now, SqlText rid, SqlText event_type] of
             (r, conn') \<Rightarrow> (r, conn', e')))"

section \<open>The per-request context\<close>

record ctx =
  request_id :: string
  started :: real
  request_chunk_index :: int
  response_chunk_index :: int

text \<open>\<^verbatim>\<open>_ctx_factory\<close>: the keyword arguments are evaluated left to right.\<close>

definition ctx_factory :: "env \<Rightarrow> ctx \<times> env" where
  "ctx_factory e =
     (case uuid4_hex e of
        (rid, e1) \<Rightarrow>
          (case time_time e1 of
             (now, e2) \<Rightarrow>
               (\<lparr>request_id = rid, started = now,
                 request_chunk_index = 0, response_chunk_index = 0\<rparr>, e2)))"

section \<open>The lifecycle handlers\<close>

text \<open>
  A handler gets the connection of its recorder, the environment, the context and the
  parameters of its signal. The context is a mutable object and the connection a shared
  one, so what a handler did before it raised stays done: the result is the error (if
  any) together with the connection, the environment and the context as the handler left
  them. The handlers are coroutines without a suspension point, so each runs to its end
  in one piece.

  The parameters are the values the source reads from them: \<^verbatim>\<open>str(params.url)\<close> and
  \<^verbatim>\<open>repr(params.exception)\<close> are the texts these library calls give, and
  \<^verbatim>\<open>headers.items()\<close> is the ordered list of pairs of the multidict.
\<close>

type_synonym outcome = "error option \<times> connection \<times> env \<times> ctx"

record trace_request_start_params =
  start_method :: string
  start_url :: string
  start_headers :: "(pystr \<times> pystr) list"

record client_response =
  status :: int
  reason :: "string option"
  response_headers :: "(pystr \<times> pystr) list"

definition optional_text :: "string option \<Rightarrow> sql_value" where
  "optional_text r = (case r of None \<Rightarrow> SqlNull | Some s \<Rightarrow> SqlText s)"

definition on_request_start ::
  "connection \<Rightarrow> env \<Rightarrow> ctx \<Rightarrow> trace_request_start_params \<Rightarrow> outcome" where
  "on_request_start conn e c params =
     (case insert_event conn e (request_id c) ''request_start'' of
        (Inl err, conn1, e1) \<Rightarrow> (Some err, conn1, e1, c)
      | (Inr event_id, conn1, e1) \<Rightarrow>
          (case execute_insert conn1 ''request_start''
                  [''event_id'', ''method'', ''url'', ''headers'']
                  [SqlInteger event_id, SqlText (start_method params),
                   SqlText (start_url params),
                   SqlText (serialize_headers (start_headers params))] of
             (Inl err, conn2) \<Rightarrow> (Some err, conn2, e1, c)
           | (Inr r, conn2) \<Rightarrow>
               (case commit conn2 of
                  (Inl err, conn3) \<Rightarrow> (Some err, conn3, e1, c)
                | (Inr u, conn3) \<Rightarrow> (None, conn3, e1, c))))"

definition on_request_end ::
  "connection \<Rightarrow> env \<Rightarrow> ctx \<Rightarrow> client_response \<Rightarrow> outcome" where
  "on_request_end conn e c response =
     (case time_time e of
        (now, e0) \<Rightarrow>
          (let elapsed = now - started c in
           case insert_event conn e0 (request_id c) ''request_end'' of
             (Inl err, conn1, e1) \<Rightarrow> (Some err, conn1, e1, c)
           | (Inr event_id, conn1, e1) \<Rightarrow>
               (case execute_insert conn1 ''request_end''
                       [''event_id'', ''status'', ''reason'', ''headers'', ''elapsed'']
                       [SqlInteger event_id, SqlInteger (status response),
                        optional_text (reason response),
                        SqlText (serialize_headers (response_headers response)),
                        SqlReal elapsed] of
                  (Inl err, conn2) \<Rightarrow> (Some err, conn2, e1, c)
                | (Inr r, conn2) \<Rightarrow>
                    (case commit conn2 of
                       (Inl err, conn3) \<Rightarrow> (Some err, conn3, e1, c)
                     | (Inr u, conn3) \<Rightarrow> (None, conn3, e1, c)))))"

definition on_request_exception ::
  "connection \<Rightarrow> env \<Rightarrow> ctx \<Rightarrow> string \<Rightarrow> outcome" where
  "on_request_exception conn e c exception_repr =
     (case insert_event conn e (request_id c) ''request_exception'' of
        (Inl err, conn1, e1) \<Rightarrow> (Some err, conn1, e1, c)
      | (Inr event_id, conn1, e1) \<Rightarrow>
          (case execute_insert conn1 ''request_exception''
                  [''event_id'', ''exception'']
                  [SqlInteger event_id, SqlText exception_repr] of
             (Inl err, conn2) \<Rightarrow> (Some err, conn2, e1, c)
           | (Inr r, conn2) \<Rightarrow>
               (case commit conn2 of
                  (Inl err, conn3) \<Rightarrow> (Some err, conn3, e1, c)
                | (Inr u, conn3) \<Rightarrow> (None, conn3, e1, c))))"

definition on_request_chunk_sent ::
  "connection \<Rightarrow> env \<Rightarrow> ctx \<Rightarrow> bytes \<Rightarrow> outcome" where
  "on_request_chunk_sent conn e c chunk =
     (case insert_event conn e (request_id c) ''request_chunk'' of
        (Inl err, conn1, e1) \<Rightarrow> (Some err, conn1, e1, c)
      | (Inr event_id, conn1, e1) \<Rightarrow>
          (case execute_insert conn1 ''request_chunk''
                  [''event_id'', ''chunk_index'', ''size'', ''payload'']
                  [SqlInteger event_id, SqlInteger (request_chunk_index c),
                   SqlInteger (int (length chunk)), SqlBlob chunk] of
             (Inl err, conn2) \<Rightarrow> (Some err, conn2, e1, c)
           | (Inr r, conn2) \<Rightarrow>
               (let c' = c\<lparr>request_chunk_index := request_chunk_index c + 1\<rparr> in
                case commit conn2 of
                  (Inl err, conn3) \<Rightarrow> (Some err, conn3, e1, c')
                | (Inr u, conn3) \<Rightarrow> (None, conn3, e1, c'))))"

definition on_response_chunk_received ::
  "connection \<Rightarrow> env \<Rightarrow> ctx \<Rightarrow> bytes \<Rightarrow> outcome" where
  "on_response_chunk_received conn e c chunk =
     (case insert_event conn e (request_id c) ''response_chunk'' of
        (Inl err, conn1, e1) \<Rightarrow> (Some err, conn1, e1, c)
      | (Inr event_id, conn1, e1) \<Rightarrow>
          (case execute_insert conn1 ''response_chunk''
                  [''event_id'', ''chunk_index'', ''size'', ''payload'']
                  [SqlInteger event_id, SqlInteger (response_chunk_index c),
                   SqlInteger (int (length chunk)), SqlBlob chunk] of
             (Inl err, conn2) \<Rightarrow> (Some err, conn2, e1, c)
           | (Inr r, conn2) \<Rightarrow>
               (let c' = c\<lparr>response_chunk_index := response_chunk_index c + 1\<rparr> in
                case commit conn2 of
                  (Inl err, conn3) \<Rightarrow> (Some err, conn3, e1, c')
                | (Inr u, conn3) \<Rightarrow> (None, conn3, e1, c'))))"

section \<open>Signals\<close>

text \<open>
  The host client fires one signal per lifecycle event, with the context of the request
  and the parameters of the event; \<open>dispatch\<close> runs the handler the recorder registers for
  that signal. \<open>event_kind\<close> is the \<^verbatim>\<open>event_type\<close> text the handler passes to
  \<^verbatim>\<open>_insert_event\<close>, which is also the name of the detail table it inserts into.
\<close>

datatype signal =
    RequestStart trace_request_start_params
  | RequestEnd client_response
  | RequestException string
  | RequestChunkSent bytes
  | ResponseChunkReceived bytes

fun dispatch :: "connection \<Rightarrow> env \<Rightarrow> ctx \<Rightarrow> signal \<Rightarrow> outcome" where
  "dispatch conn e c (RequestStart params) = on_request_start conn e c params"
| "dispatch conn e c (RequestEnd response) = on_request_end conn e c response"
| "dispatch conn e c (RequestException exception_repr) = on_request_exception conn e c exception_repr"
| "dispatch conn e c (RequestChunkSent chunk) = on_request_chunk_sent conn e c chunk"
| "dispatch conn e c (ResponseChunkReceived chunk) = on_response_chunk_received conn e c chunk"

fun event_kind :: "signal \<Rightarrow> string" where
  "event_kind (RequestStart params) = ''request_start''"
| "event_kind (RequestEnd response) = ''request_end''"
| "event_kind (RequestException exception_repr) = ''request_exception''"
| "event_kind (RequestChunkSent chunk) = ''request_chunk''"
| "event_kind (ResponseChunkReceived chunk) = ''response_chunk''"

definition raised :: "outcome \<Rightarrow> error option" where
  "raised out = fst out"

definition conn_of :: "outcome \<Rightarrow> connection" where
  "conn_of out = fst (snd out)"

definition env_of :: "outcome \<Rightarrow> env" where
  "env_of out = fst (snd (snd out))"

definition ctx_of :: "outcome \<Rightarrow> ctx" where
  "ctx_of out = snd (snd (snd out))"

section \<open>Reading the tables\<close>

definition table_rows :: "database \<Rightarrow> string \<Rightarrow> sql_value list list" where
  "table_rows db name = (case map_of db name of None \<Rightarrow> [] | Some t \<Rightarrow> rows t)"

definition table_columns :: "database \<Rightarrow> string \<Rightarrow> column list" where
  "table_columns db name = (case map_of db name of None \<Rightarrow> [] | Some t \<Rightarrow> columns t)"

definition events_seq :: "database \<Rightarrow> int" where
  "events_seq db = (case map_of db ''events'' of None \<Rightarrow> 0 | Some t \<Rightarrow> last_rowid t)"

text \<open>The value a row has in the column of the given name.\<close>

definition field :: "column list \<Rightarrow> string \<Rightarrow> sql_value list \<Rightarrow> sql_value" where
  "field cols name row =
     (case map_of (zip (map cname cols) row) name of None \<Rightarrow> SqlNull | Some v \<Rightarrow> v)"

fun creates :: "statement \<Rightarrow> database \<Rightarrow> bool" where
  "creates (CREATE_TABLE_IF_NOT_EXISTS name cols) db =
     (case map_of db name of None \<Rightarrow> False | Some t \<Rightarrow> columns t = cols)"

text \<open>The database has the six tables of the script, with the script's columns.\<close>

definition has_schema :: "database \<Rightarrow> bool" where
  "has_schema db = list_all (\<lambda>s. creates s db) schema_script"

text \<open>The names of the tables of a database, and the names the script creates.\<close>

definition table_names :: "database \<Rightarrow> string list" where
  "table_names db = map fst db"

definition schema_names :: "string list" where
  "schema_names =
     [''events'', ''request_start'', ''request_end'', ''request_exception'',
      ''request_chunk'', ''response_chunk'']"

section \<open>What a handler is expected to leave behind\<close>

text \<open>
  The rows a handler writes for a signal, read off the storage schema: the event row
  carries the new identifier, the time \<^verbatim>\<open>_insert_event\<close> read, the context's correlation id
  and the kind; the detail row carries the same identifier and the fields of the signal.
  The end handler reads the clock once for the elapsed time before \<^verbatim>\<open>_insert_event\<close>
  reads it again.
\<close>

definition append_row :: "database \<Rightarrow> string \<Rightarrow> sql_value list \<Rightarrow> database" where
  "append_row db name row =
     (case map_of db name of
        None \<Rightarrow> db
      | Some t \<Rightarrow> AList.update name (t\<lparr>rows := rows t @ [row], last_rowid := last_rowid t + 1\<rparr>) db)"

definition tick :: "env \<Rightarrow> env" where
  "tick e = e\<lparr>ticks := Suc (ticks e)\<rparr>"

fun event_time :: "env \<Rightarrow> signal \<Rightarrow> real" where
  "event_time e (RequestEnd response) = clock e (Suc (ticks e))"
| "event_time e s = clock e (ticks e)"

fun env_after :: "env \<Rightarrow> signal \<Rightarrow> env" where
  "env_after e (RequestEnd response) = e\<lparr>ticks := Suc (Suc (ticks e))\<rparr>"
| "env_after e s = e\<lparr>ticks := Suc (ticks e)\<rparr>"

fun detail_values :: "env \<Rightarrow> ctx \<Rightarrow> signal \<Rightarrow> sql_value list" where
  "detail_values e c (RequestStart params) =
     [SqlText (start_method params), SqlText (start_url params),
      SqlText (serialize_headers (start_headers params))]"
| "detail_values e c (RequestEnd response) =
     [SqlInteger (status response), optional_text (reason response),
      SqlText (serialize_headers (response_headers response)),
      SqlReal (clock e (ticks e) - started c)]"
| "detail_values e c (RequestException exception_repr) = [SqlText exception_repr]"
| "detail_values e c (RequestChunkSent chunk) =
     [SqlInteger (request_chunk_index c), SqlInteger (int (length chunk)), SqlBlob chunk]"
| "detail_values e c (ResponseChunkReceived chunk) =
     [SqlInteger (response_chunk_index c), SqlInteger (int (length chunk)), SqlBlob chunk]"

fun counted :: "ctx \<Rightarrow> signal \<Rightarrow> ctx" where
  "counted c (RequestChunkSent chunk) = c\<lparr>request_chunk_index := request_chunk_index c + 1\<rparr>"
| "counted c (ResponseChunkReceived chunk) = c\<lparr>response_chunk_index := response_chunk_index c + 1\<rparr>"
| "counted c s = c"

definition event_row :: "database \<Rightarrow> env \<Rightarrow> ctx \<Rightarrow> signal \<Rightarrow> sql_value list" where
  "event_row db e c s =
     [SqlInteger (events_seq db + 1), SqlReal (event_time e s), SqlText (request_id c),
      SqlText (event_kind s)]"

definition detail_row :: "database \<Rightarrow> env \<Rightarrow> ctx \<Rightarrow> signal \<Rightarrow> sql_value list" where
  "detail_row db e c s = SqlInteger (events_seq db + 1) # detail_values e c s"

definition with_event :: "database \<Rightarrow> env \<Rightarrow> ctx \<Rightarrow> signal \<Rightarrow> database" where
  "with_event db e c s = append_row db ''events'' (event_row db e c s)"

definition with_both :: "database \<Rightarrow> env \<Rightarrow> ctx \<Rightarrow> signal \<Rightarrow> database" where
  "with_both db e c s = append_row (with_event db e c s) (event_kind s) (detail_row db e c s)"

text \<open>The environment lets the next \<open>n\<close> storage calls run.\<close>

fun no_fault :: "nat \<Rightarrow> error option list \<Rightarrow> bool" where
  "no_fault 0 fs = True"
| "no_fault (Suc n) [] = True"
| "no_fault (Suc n) (f # fs) = (f = None \<and> no_fault n fs)"

text \<open>
  The stages of one handler invocation on an open connection that has the schema. The
  three storage calls are the event insert, the detail insert and the commit; the
  invocation ends at the first one that raises, with what was done before it left in
  place. The chunk counter counts as soon as the detail insert has returned.
\<close>

definition staged :: "connection \<Rightarrow> env \<Rightarrow> ctx \<Rightarrow> signal \<Rightarrow> outcome" where
  "staged conn e c s =
    (case faults conn of
       Some err # fs \<Rightarrow> (Some err, conn\<lparr>faults := fs\<rparr>, env_after e s, c)
     | fs1 \<Rightarrow>
        (case tl fs1 of
           Some err # fs \<Rightarrow>
             (Some err, conn\<lparr>faults := fs, current := with_event (current conn) e c s\<rparr>,
              env_after e s, c)
         | fs2 \<Rightarrow>
            (case tl fs2 of
               Some err # fs \<Rightarrow>
                 (Some err, conn\<lparr>faults := fs, current := with_both (current conn) e c s\<rparr>,
                  env_after e s, counted c s)
             | fs3 \<Rightarrow>
                 (None, conn\<lparr>faults := tl fs3, current := with_both (current conn) e c s,
                             durable := with_both (current conn) e c s\<rparr>,
                  env_after e s, counted c s))))"

section \<open>Contexts of one process\<close>


section \<open>Repeated initialization\<close>

text \<open>\<open>init_calls n\<close> calls \<^verbatim>\<open>init_sqlite\<close> \<open>n\<close> times on the same connection and collects what
  each call raised.\<close>

fun init_calls :: "nat \<Rightarrow> connection \<Rightarrow> error option list \<times> connection" where
  "init_calls 0 conn = ([], conn)"
| "init_calls (Suc n) conn =
     (case init_sqlite conn of
        (r, conn1) \<Rightarrow> (case init_calls n conn1 of (rs, conn2) \<Rightarrow> (r # rs, conn2)))"

fun created_name :: "statement \<Rightarrow> string" where
  "created_name (CREATE_TABLE_IF_NOT_EXISTS name cols) = name"

definition initialized :: "database \<Rightarrow> database" where
  "initialized db = foldl run_statement db schema_script"

section \<open>The recorder\<close>

text \<open>
  A storage handle is a reference to a connection object; the store gives the state of
  the connection behind each handle. A connection that is not open is one whose
  \<open>is_closed\<close> is set, so opening or closing a handle would show as a change of that flag.
\<close>

type_synonym handle = nat

type_synonym store = "handle \<Rightarrow> connection"

type_synonym 'p callback = "store \<Rightarrow> env \<Rightarrow> ctx \<Rightarrow> 'p \<Rightarrow> error option \<times> store \<times> env \<times> ctx"

text \<open>
  Modelled from the spec: the hook registry \<^verbatim>\<open>TraceConfig\<close> of the host client (aiohttp) is
  not under src/. As the spec describes it, the registry has a hook point for each of
  the five lifecycle kinds, to which handlers are appended, and it keeps the factory of
  the per-request context; a new registry has no handler. A handler takes the context
  and the parameters of its kind. The hook points the recorder never touches are left
  out.
\<close>

record trace_config =
  trace_config_ctx_factory :: "env \<Rightarrow> ctx \<times> env"
  signal_request_start :: "trace_request_start_params callback list"
  signal_request_end :: "client_response callback list"
  signal_request_exception :: "string callback list"
  signal_request_chunk_sent :: "bytes callback list"
  signal_response_chunk_received :: "bytes callback list"

definition TraceConfig :: "(env \<Rightarrow> ctx \<times> env) \<Rightarrow> trace_config" where
  "TraceConfig factory =
     \<lparr>trace_config_ctx_factory = factory, signal_request_start = [], signal_request_end = [],
      signal_request_exception = [], signal_request_chunk_sent = [],
      signal_response_chunk_received = []\<rparr>"

text \<open>
  A method bound to a recorder whose \<^verbatim>\<open>_conn\<close> is the handle \<open>h\<close>: it works on the
  connection behind \<open>h\<close>.
\<close>

definition bound :: "handle \<Rightarrow> (connection \<Rightarrow> env \<Rightarrow> ctx \<Rightarrow> 'p \<Rightarrow> outcome) \<Rightarrow> 'p callback" where
  "bound h f st e c p =
     (case f (st h) e c p of (r, conn', e', c') \<Rightarrow> (r, st(h := conn'), e', c'))"

record recorder =
  conn_handle :: handle
  trace_config :: trace_config

text \<open>
  \<^verbatim>\<open>SQLiteTraceRecorder.__init__\<close>. It makes no storage call; the store is passed through
  to state that.
\<close>

definition SQLiteTraceRecorder :: "store \<Rightarrow> handle \<Rightarrow> recorder \<times> store" where
  "SQLiteTraceRecorder st h =
     (let tc0 = TraceConfig ctx_factory;
          tc1 = tc0\<lparr>signal_request_start := signal_request_start tc0 @ [bound h on_request_start]\<rparr>;
          tc2 = tc1\<lparr>signal_request_end := signal_request_end tc1 @ [bound h on_request_end]\<rparr>;
          tc3 = tc2\<lparr>signal_request_exception :=
                      signal_request_exception tc2 @ [bound h on_request_exception]\<rparr>;
          tc4 = tc3\<lparr>signal_request_chunk_sent :=
                      signal_request_chunk_sent tc3 @ [bound h on_request_chunk_sent]\<rparr>;
          tc5 = tc4\<lparr>signal_response_chunk_received :=
                      signal_response_chunk_received tc4 @ [bound h on_response_chunk_received]\<rparr>
      in (\<lparr>conn_handle = h, trace_config = tc5\<rparr>, st))"

section \<open>Several requests on one connection\<close>









section \<open>Decoding the serialized headers\<close>

text \<open>
  The source has no decoder; the text it stores is read back with the standard library's
  \<^verbatim>\<open>json.loads\<close>. This is that decoder for the texts in question, arrays of two-element
  arrays of strings, with JSON's optional white space between the tokens. Inside a
  string it reads what \<^verbatim>\<open>json.loads\<close> reads: a closing quote ends the string, a backslash
  starts an escape, a control character is refused, any other character stands for
  itself. An escape \<^verbatim>\<open>\uXXXX\<close> whose value is a high surrogate and that is directly followed
  by an escape whose value is a low surrogate is read, with it, as the one code point of
  that surrogate pair.
\<close>

definition is_high_surrogate :: "nat \<Rightarrow> bool" where
  "is_high_surrogate n = (0xD800 \<le> n \<and> n \<le> 0xDBFF)"

definition is_low_surrogate :: "nat \<Rightarrow> bool" where
  "is_low_surrogate n = (0xDC00 \<le> n \<and> n \<le> 0xDFFF)"

definition hex_value :: "char \<Rightarrow> nat option" where
  "hex_value c =
     (let n = of_char c :: nat in
      if 48 \<le> n \<and> n \<le> 57 then Some (n - 48)
      else if 97 \<le> n \<and> n \<le> 102 then Some (n - 87)
      else if 65 \<le> n \<and> n \<le> 70 then Some (n - 55)
      else None)"

definition hex4_value :: "char \<Rightarrow> char \<Rightarrow> char \<Rightarrow> char \<Rightarrow> nat option" where
  "hex4_value a b c d =
     (case (hex_value a, hex_value b, hex_value c, hex_value d) of
        (Some x, Some y, Some z, Some w) \<Rightarrow> Some (((x * 16 + y) * 16 + z) * 16 + w)
      | _ \<Rightarrow> None)"

definition cons_char :: "nat \<Rightarrow> (pystr \<times> string) option \<Rightarrow> (pystr \<times> string) option" where
  "cons_char n r = (case r of None \<Rightarrow> None | Some (s, rest) \<Rightarrow> Some (n # s, rest))"

definition short_escape :: "char \<Rightarrow> nat option" where
  "short_escape c =
     (if c = dquote then Some 0x22
      else if c = backslash then Some 0x5C
      else if c = CHR ''/'' then Some 0x2F
      else if c = CHR ''b'' then Some 0x08
      else if c = CHR ''f'' then Some 0x0C
      else if c = CHR ''n'' then Some 0x0A
      else if c = CHR ''r'' then Some 0x0D
      else if c = CHR ''t'' then Some 0x09
      else None)"

text \<open>
  What follows a backslash: the code point it stands for and the number of characters
  it takes, or nothing when the escape is malformed.
\<close>

definition unescape :: "string \<Rightarrow> (nat \<times> nat) option" where
  "unescape cs =
     (case cs of
        [] \<Rightarrow> None
      | e # rest \<Rightarrow>
          if e = CHR ''u'' then
            (case rest of
               h1 # h2 # h3 # h4 # rest1 \<Rightarrow>
                 (case hex4_value h1 h2 h3 h4 of
                    None \<Rightarrow> None
                  | Some uni \<Rightarrow>
                      if is_high_surrogate uni \<and> take 2 rest1 = [backslash, CHR ''u''] then
                        (case drop 2 rest1 of
                           l1 # l2 # l3 # l4 # rest2 \<Rightarrow>
                             (case hex4_value l1 l2 l3 l4 of
                                None \<Rightarrow> None
                              | Some uni2 \<Rightarrow>
                                  if is_low_surrogate uni2 then
                                    Some (0x10000 + ((uni - 0xD800) * 1024 + (uni2 - 0xDC00)), 11)
                                  else Some (uni, 5))
                         | _ \<Rightarrow> None)
                      else Some (uni, 5))
             | _ \<Rightarrow> None)
          else
            (case short_escape e of
               None \<Rightarrow> None
             | Some n \<Rightarrow> Some (n, 1)))"

fun scan_string :: "string \<Rightarrow> (pystr \<times> string) option" where
  "scan_string [] = None"
| "scan_string (c # cs) =
     (if c = dquote then Some ([], cs)
      else if c = backslash then
        (case unescape cs of
           None \<Rightarrow> None
         | Some (n, k) \<Rightarrow> cons_char n (scan_string (drop k cs)))
      else if (of_char c :: nat) < 0x20 then None
      else cons_char (of_char c) (scan_string cs))"

definition is_ws :: "char \<Rightarrow> bool" where
  "is_ws c = (c = CHR '' '' \<or> c = CHR 0x09 \<or> c = CHR 0x0A \<or> c = CHR 0x0D)"

definition skip_ws :: "string \<Rightarrow> string" where
  "skip_ws s = dropWhile is_ws s"

definition expect :: "char \<Rightarrow> string \<Rightarrow> string option" where
  "expect c s =
     (case skip_ws s of
        [] \<Rightarrow> None
      | d # rest \<Rightarrow> if d = c then Some rest else None)"

definition parse_string :: "string \<Rightarrow> (pystr \<times> string) option" where
  "parse_string s =
     (case expect dquote s of
        None \<Rightarrow> None
      | Some rest \<Rightarrow> scan_string rest)"

definition parse_pair :: "string \<Rightarrow> ((pystr \<times> pystr) \<times> string) option" where
  "parse_pair s =
     (case expect CHR ''['' s of
        None \<Rightarrow> None
      | Some r1 \<Rightarrow>
     (case parse_string r1 of
        None \<Rightarrow> None
      | Some (k, r2) \<Rightarrow>
     (case expect CHR '','' r2 of
        None \<Rightarrow> None
      | Some r3 \<Rightarrow>
     (case parse_string r3 of
        None \<Rightarrow> None
      | Some (v, r4) \<Rightarrow>
     (case expect CHR '']'' r4 of
        None \<Rightarrow> None
      | Some r5 \<Rightarrow> Some ((k, v), r5))))))"

text \<open>
  The pairs of a non-empty array, up to its closing bracket. The comparison of the
  lengths is always true (a pair takes at least one character, see
  \<open>parse_items_progress\<close>); it is written out so that the recursion is seen to end.
\<close>

fun parse_items :: "string \<Rightarrow> ((pystr \<times> pystr) list \<times> string) option" where
  "parse_items s =
     (case parse_pair s of
        None \<Rightarrow> None
      | Some (p, r) \<Rightarrow>
          (case skip_ws r of
             [] \<Rightarrow> None
           | c # r' \<Rightarrow>
               if c = CHR '']'' then Some ([p], r')
               else if c = CHR '','' \<and> length r' < length s then
                 (case parse_items r' of
                    None \<Rightarrow> None
                  | Some (ps, r'') \<Rightarrow> Some (p # ps, r''))
               else None))"

declare parse_items.simps [simp del]

definition deserialize_headers :: "string \<Rightarrow> (pystr \<times> pystr) list option" where
  "deserialize_headers s =
     (case expect CHR ''['' s of
        None \<Rightarrow> None
      | Some r \<Rightarrow>
          (case expect CHR '']'' r of
             Some r' \<Rightarrow> if skip_ws r' = [] then Some [] else None
           | None \<Rightarrow>
               (case parse_items r of
                  None \<Rightarrow> None
                | Some (ps, r') \<Rightarrow> if skip_ws r' = [] then Some ps else None)))"

text \<open>
  A string of valid code points in which no high surrogate is directly followed by a low
  surrogate.
\<close>

fun json_safe :: "pystr \<Rightarrow> bool" where
  "json_safe [] = True"
| "json_safe (a # s) =
     (a < 0x110000 \<and>
      \<not> (is_high_surrogate a \<and> (case s of [] \<Rightarrow> False | b # s' \<Rightarrow> is_low_surrogate b)) \<and>
      json_safe s)"

text \<open>The text does not start with the escape of a low surrogate.\<close>

definition no_pair_ahead :: "string \<Rightarrow> bool" where
  "no_pair_ahead tail =
     (take 2 tail = [backslash, CHR ''u''] \<longrightarrow>
        (\<exists>l1 l2 l3 l4 rest m. drop 2 tail = l1 # l2 # l3 # l4 # rest \<and>
           hex4_value l1 l2 l3 l4 = Some m \<and> \<not> is_low_surrogate m))"

section \<open>Concrete runs\<close>

text \<open>The values the examples below are run on.\<close>

definition new_connection :: connection where
  "new_connection = \<lparr>durable = [], current = [], faults = [], is_closed = False\<rparr>"

text \<open>
  A new database with the schema created, a clock that advances by one second per
  reading, and the context the factory makes first.
\<close>

definition example_conn :: connection where
  "example_conn = snd (init_sqlite new_connection)"

definition example_env :: env where
  "example_env =
     \<lparr>clock = (\<lambda>n. 100 + real n), ticks = 0, uuid_source = (\<lambda>n. ''9f1c''), drawn = 0\<rparr>"

definition example_ctx :: ctx where
  "example_ctx = fst (ctx_factory example_env)"

text \<open>The same connection when the third storage call to come will find the database
  locked.\<close>

definition locked_conn :: connection where
  "locked_conn = example_conn\<lparr>faults := [None, None, Some (OperationalError ''database is locked'')]\<rparr>"

text \<open>A clock that is set back by fifty seconds after its first reading, and a response.\<close>

definition backward_env :: env where
  "backward_env =
     \<lparr>clock = (\<lambda>n. if n = 0 then 100 else 50), ticks = 0,
      uuid_source = (\<lambda>n. ''9f1c''), drawn = 0\<rparr>"

definition ok_response :: client_response where
  "ok_response = \<lparr>status = 200, reason = Some ''OK'', response_headers = []\<rparr>"





text \<open>A header list with a repeated name and with characters of every escape class.\<close>

definition example_headers :: "(pystr \<times> pystr) list" where
  "example_headers =
     [(map of_char ''Set-Cookie'', map of_char ''a=1''),
      (map of_char ''Set-Cookie'', map of_char ''b=2''),
      (map of_char ''X-Note'', [0x22, 0xE9, 0x5C, 0x0A, 0x1F600, 0xDE00, 0xD83D])]"

section \<open>Storage lemmas\<close>

lemma has_schema_iff:
  "has_schema db \<longleftrightarrow>
     (\<exists>t. map_of db ''events'' = Some t \<and> columns t =
        [Column ''id'' INTEGER [PRIMARY_KEY_AUTOINCREMENT],
         Column ''ts'' REAL [NOT_NULL],
         Column ''request_id'' TEXT [NOT_NULL],
         Column ''event_type'' TEXT [NOT_NULL]]) \<and>
     (\<exists>t. map_of db ''request_start'' = Some t \<and> columns t =
        [Column ''event_id'' INTEGER [NOT_NULL, REFERENCES ''events'' ''id''],
         Column ''method'' TEXT [NOT_NULL],
         Column ''url'' TEXT [NOT_NULL],
         Column ''headers'' TEXT [NOT_NULL]]) \<and>
     (\<exists>t. map_of db ''request_end'' = Some t \<and> columns t =
        [Column ''event_id'' INTEGER [NOT_NULL, REFERENCES ''events'' ''id''],
         Column ''status'' INTEGER [NOT_NULL],
         Column ''reason'' TEXT [],
         Column ''headers'' TEXT [NOT_NULL],
         Column ''elapsed'' REAL [NOT_NULL]]) \<and>
     (\<exists>t. map_of db ''request_exception'' = Some t \<and> columns t =
        [Column ''event_id'' INTEGER [NOT_NULL, REFERENCES ''events'' ''id''],
         Column ''exception'' TEXT [NOT_NULL]]) \<and>
     (\<exists>t. map_of db ''request_chunk'' = Some t \<and> columns t =
        [Column ''event_id'' INTEGER [NOT_NULL, REFERENCES ''events'' ''id''],
         Column ''chunk_index'' INTEGER [NOT_NULL],
         Column ''size'' INTEGER [NOT_NULL],
         Column ''payload'' BLOB [NOT_NULL]]) \<and>
     (\<exists>t. map_of db ''response_chunk'' = Some t \<and> columns t =
        [Column ''event_id'' INTEGER [NOT_NULL, REFERENCES ''events'' ''id''],
         Column ''chunk_index'' INTEGER [NOT_NULL],
         Column ''size'' INTEGER [NOT_NULL],
         Column ''payload'' BLOB [NOT_NULL]])"
  by (auto simp: has_schema_def schema_script_def split: option.splits)

lemma insert_events_row:
  assumes "columns t =
        [Column ''id'' INTEGER [PRIMARY_KEY_AUTOINCREMENT],
         Column ''ts'' REAL [NOT_NULL],
         Column ''request_id'' TEXT [NOT_NULL],
         Column ''event_type'' TEXT [NOT_NULL]]"
  shows "insert_row t [''ts'', ''request_id'', ''event_type''] [SqlReal a, SqlText b, SqlText k] =
     Inr (last_rowid t + 1,
          t\<lparr>rows := rows t @ [[SqlInteger (last_rowid t + 1), SqlReal a, SqlText b, SqlText k]],
            last_rowid := last_rowid t + 1\<rparr>)"
  using assms by (simp add: insert_row_def bound_value_def violates_not_null_def Let_def)

lemma map_of_append_row:
  "map_of (append_row db n r) n' =
     (if n' = n then map_option (\<lambda>t. t\<lparr>rows := rows t @ [r], last_rowid := last_rowid t + 1\<rparr>) (map_of db n)
      else map_of db n')"
  by (simp add: append_row_def update_conv' split: option.splits)

lemma has_schema_append_row [simp]: "has_schema (append_row db n r) = has_schema db"
  by (simp add: has_schema_def schema_script_def map_of_append_row split: option.splits)


lemma table_rows_append_row:
  "table_rows (append_row db n r) n' =
     (if n' = n \<and> map_of db n \<noteq> None then table_rows db n @ [r] else table_rows db n')"
  by (auto simp: table_rows_def map_of_append_row split: option.splits)

lemma insert_event_cases:
  assumes "\<not> is_closed conn" "has_schema (current conn)"
  shows "insert_event conn e rid k =
    (case faults conn of
       Some err # fs \<Rightarrow> (Inl err, conn\<lparr>faults := fs\<rparr>, tick e)
     | fs \<Rightarrow> (Inr (events_seq (current conn) + 1),
              conn\<lparr>faults := tl fs,
                   current := append_row (current conn) ''events''
                     [SqlInteger (events_seq (current conn) + 1), SqlReal (clock e (ticks e)),
                      SqlText rid, SqlText k]\<rparr>, tick e))"
proof -
  from assms(2) obtain t where t: "map_of (current conn) ''events'' = Some t" "columns t =
        [Column ''id'' INTEGER [PRIMARY_KEY_AUTOINCREMENT],
         Column ''ts'' REAL [NOT_NULL],
         Column ''request_id'' TEXT [NOT_NULL],
         Column ''event_type'' TEXT [NOT_NULL]]"
    unfolding has_schema_iff by blast
  show ?thesis
    using assms(1) t
    by (simp add: insert_event_def time_time_def execute_insert_def next_fault_def
        insert_events_row append_row_def events_seq_def tick_def
        split: list.splits option.splits)
qed

lemma bound_value_full:
  assumes "distinct (map cname cols)" "length vals = length cols"
  shows "map (bound_value (map cname cols) vals r) cols = vals"
proof (rule nth_equalityI)
  show "length (map (bound_value (map cname cols) vals r) cols) = length vals"
    using assms by simp
next
  fix i assume "i < length (map (bound_value (map cname cols) vals r) cols)"
  then have i: "i < length cols" by simp
  have "map_of (zip (map cname cols) vals) (map cname cols ! i) = Some (vals ! i)"
    using assms i by (intro map_of_zip_nth) simp_all
  then show "map (bound_value (map cname cols) vals r) cols ! i = vals ! i"
    using i by (simp add: bound_value_def)
qed

lemma execute_insert_full_row:
  assumes "\<not> is_closed conn" "map_of (current conn) tn = Some t"
    "names = map cname (columns t)" "distinct names" "length vals = length names"
    "\<not> list_ex violates_not_null (zip (columns t) vals)"
  shows "execute_insert conn tn names vals =
    (case faults conn of
       Some err # fs \<Rightarrow> (Inl err, conn\<lparr>faults := fs\<rparr>)
     | fs \<Rightarrow> (Inr (last_rowid t + 1),
              conn\<lparr>faults := tl fs, current := append_row (current conn) tn vals\<rparr>))"
proof -
  have row: "map (bound_value names vals (last_rowid t + 1)) (columns t) = vals"
    using assms(3-5) bound_value_full [of "columns t" vals] by simp
  have ins: "insert_row t names vals =
     Inr (last_rowid t + 1, t\<lparr>rows := rows t @ [vals], last_rowid := last_rowid t + 1\<rparr>)"
    using assms(3,5,6) row by (simp add: insert_row_def Let_def list_ex_iff)
  show ?thesis
    using assms(1,2)
    by (simp add: execute_insert_def next_fault_def ins append_row_def
        split: list.splits option.splits)
qed

lemma commit_cases:
  assumes "\<not> is_closed conn"
  shows "commit conn =
    (case faults conn of
       Some err # fs \<Rightarrow> (Inl err, conn\<lparr>faults := fs\<rparr>)
     | fs \<Rightarrow> (Inr (), conn\<lparr>faults := tl fs, durable := current conn\<rparr>))"
  using assms by (simp add: commit_def next_fault_def split: list.splits option.splits)

lemma detail_insert:
  assumes "\<not> is_closed conn" "has_schema (current conn)"
    "(tn, names, vals) \<in> {
       (''request_start'', [''event_id'', ''method'', ''url'', ''headers''], [SqlInteger i, SqlText a, SqlText b, SqlText h]),
       (''request_end'', [''event_id'', ''status'', ''reason'', ''headers'', ''elapsed''], [SqlInteger i, SqlInteger st, optional_text rs, SqlText h, SqlReal el]),
       (''request_exception'', [''event_id'', ''exception''], [SqlInteger i, SqlText a]),
       (''request_chunk'', [''event_id'', ''chunk_index'', ''size'', ''payload''], [SqlInteger i, SqlInteger ci, SqlInteger sz, SqlBlob ch]),
       (''response_chunk'', [''event_id'', ''chunk_index'', ''size'', ''payload''], [SqlInteger i, SqlInteger ci, SqlInteger sz, SqlBlob ch])}"
  shows "execute_insert conn tn names vals =
    (case faults conn of
       Some err # fs \<Rightarrow> (Inl err, conn\<lparr>faults := fs\<rparr>)
     | fs \<Rightarrow> (Inr (the (map_option last_rowid (map_of (current conn) tn)) + 1),
              conn\<lparr>faults := tl fs, current := append_row (current conn) tn vals\<rparr>))"
proof -
  from assms(2) obtain t1 t2 t3 t4 t5 where
    "map_of (current conn) ''request_start'' = Some t1" "columns t1 =
        [Column ''event_id'' INTEGER [NOT_NULL, REFERENCES ''events'' ''id''],
         Column ''method'' TEXT [NOT_NULL],
         Column ''url'' TEXT [NOT_NULL],
         Column ''headers'' TEXT [NOT_NULL]]"
    "map_of (current conn) ''request_end'' = Some t2" "columns t2 =
        [Column ''event_id'' INTEGER [NOT_NULL, REFERENCES ''events'' ''id''],
         Column ''status'' INTEGER [NOT_NULL],
         Column ''reason'' TEXT [],
         Column ''headers'' TEXT [NOT_NULL],
         Column ''elapsed'' REAL [NOT_NULL]]"
    "map_of (current conn) ''request_exception'' = Some t3" "columns t3 =
        [Column ''event_id'' INTEGER [NOT_NULL, REFERENCES ''events'' ''id''],
         Column ''exception'' TEXT [NOT_NULL]]"
    "map_of (current conn) ''request_chunk'' = Some t4" "columns t4 =
        [Column ''event_id'' INTEGER [NOT_NULL, REFERENCES ''events'' ''id''],
         Column ''chunk_index'' INTEGER [NOT_NULL],
         Column ''size'' INTEGER [NOT_NULL],
         Column ''payload'' BLOB [NOT_NULL]]"
    "map_of (current conn) ''response_chunk'' = Some t5" "columns t5 =
        [Column ''event_id'' INTEGER [NOT_NULL, REFERENCES ''events'' ''id''],
         Column ''chunk_index'' INTEGER [NOT_NULL],
         Column ''size'' INTEGER [NOT_NULL],
         Column ''payload'' BLOB [NOT_NULL]]"
    unfolding has_schema_iff by blast
  with assms(1,3) show ?thesis
    by (auto simp: execute_insert_full_row violates_not_null_def split: list.splits option.splits)
qed

lemma dispatch_staged:
  assumes "\<not> is_closed conn" "has_schema (current conn)"
  shows "dispatch conn e c s = staged conn e c s"
proof -
  have ev: "\<And>k. insert_event conn e (request_id c) k =
    (case faults conn of
       Some err # fs \<Rightarrow> (Inl err, conn\<lparr>faults := fs\<rparr>, tick e)
     | fs \<Rightarrow> (Inr (events_seq (current conn) + 1),
              conn\<lparr>faults := tl fs,
                   current := append_row (current conn) ''events''
                     [SqlInteger (events_seq (current conn) + 1), SqlReal (clock e (ticks e)),
                      SqlText (request_id c), SqlText k]\<rparr>, tick e))"
    using assms by (rule insert_event_cases)
  show ?thesis
  proof (cases s)
    case (RequestChunkSent chunk)
    show ?thesis
      using assms unfolding RequestChunkSent
      apply (simp add: on_request_chunk_sent_def ev staged_def split: list.split option.split)
      apply (simp add: detail_insert commit_cases with_event_def with_both_def event_row_def detail_row_def tick_def Let_def split: list.split option.split)
      done
  next
    case (RequestStart p)
    show ?thesis
      using assms unfolding RequestStart
      apply (simp add: on_request_start_def ev staged_def split: list.split option.split)
      apply (simp add: detail_insert commit_cases with_event_def with_both_def event_row_def detail_row_def tick_def Let_def split: list.split option.split)
      done
  next
    case (RequestEnd r)
    have ev': "\<And>k. insert_event conn (tick e) (request_id c) k =
    (case faults conn of
       Some err # fs \<Rightarrow> (Inl err, conn\<lparr>faults := fs\<rparr>, tick (tick e))
     | fs \<Rightarrow> (Inr (events_seq (current conn) + 1),
              conn\<lparr>faults := tl fs,
                   current := append_row (current conn) ''events''
                     [SqlInteger (events_seq (current conn) + 1), SqlReal (clock (tick e) (ticks (tick e))),
                      SqlText (request_id c), SqlText k]\<rparr>, tick (tick e)))"
    using assms by (rule insert_event_cases)
    show ?thesis
      using assms unfolding RequestEnd
      apply (simp add: on_request_end_def time_time_def tick_def[symmetric] ev' staged_def split: list.split option.split)
      apply (simp add: detail_insert commit_cases with_event_def with_both_def event_row_def detail_row_def tick_def Let_def split: list.split option.split)
      done
  next
    case (RequestException x)
    show ?thesis
      using assms unfolding RequestException
      apply (simp add: on_request_exception_def ev staged_def split: list.split option.split)
      apply (simp add: detail_insert commit_cases with_event_def with_both_def event_row_def detail_row_def tick_def Let_def split: list.split option.split)
      done
  next
    case (ResponseChunkReceived chunk)
    show ?thesis
      using assms unfolding ResponseChunkReceived
      apply (simp add: on_response_chunk_received_def ev staged_def split: list.split option.split)
      apply (simp add: detail_insert commit_cases with_event_def with_both_def event_row_def detail_row_def tick_def Let_def split: list.split option.split)
      done
  qed
qed

lemma example_conn_ready:
  "\<not> is_closed example_conn \<and> has_schema (current example_conn) \<and> faults example_conn = []"
  by code_simp

lemma example_ctx_eq:
  "example_ctx =
     \<lparr>request_id = ''9f1c'', started = 100, request_chunk_index = 0, response_chunk_index = 0\<rparr>"
  by (simp add: example_ctx_def ctx_factory_def uuid4_hex_def time_time_def example_env_def)

section \<open>Stage lemmas\<close>

lemma no_fault_Nil [simp]: "no_fault n [] = True"
  by (cases n) simp_all

lemma no_fault_add: "no_fault (m + n) fs = (no_fault m fs \<and> no_fault n (drop m fs))"
proof (induction m arbitrary: fs)
  case 0
  show ?case by simp
next
  case (Suc m)
  show ?case
    using Suc.IH by (cases fs) simp_all
qed


lemma no_fault_2:
  "no_fault 2 fs = (fs = [] \<or> fs = [None] \<or> (\<exists>gs. fs = None # None # gs))"
  by (cases fs; cases "tl fs") (auto simp: numeral_2_eq_2)

lemma no_fault_3:
  "no_fault 3 fs =
     (fs = [] \<or> fs = [None] \<or> fs = [None, None] \<or> (\<exists>gs. fs = None # None # None # gs))"
  by (cases fs; cases "tl fs"; cases "tl (tl fs)") (auto simp: numeral_3_eq_3)

lemma staged_success:
  assumes "no_fault 3 (faults conn)"
  shows "staged conn e c s =
    (None, conn\<lparr>faults := drop 3 (faults conn), current := with_both (current conn) e c s,
                durable := with_both (current conn) e c s\<rparr>,
     env_after e s, counted c s)"
  using assms by (auto simp: no_fault_3 staged_def)

lemma staged_fail_event:
  assumes "faults conn = Some err # fs"
  shows "staged conn e c s = (Some err, conn\<lparr>faults := fs\<rparr>, env_after e s, c)"
  using assms by (simp add: staged_def)

lemma staged_fail_detail:
  assumes "faults conn = None # Some err # fs"
  shows "staged conn e c s =
    (Some err, conn\<lparr>faults := fs, current := with_event (current conn) e c s\<rparr>,
     env_after e s, c)"
  using assms by (simp add: staged_def)

lemma staged_fail_commit:
  assumes "faults conn = None # None # Some err # fs"
  shows "staged conn e c s =
    (Some err, conn\<lparr>faults := fs, current := with_both (current conn) e c s\<rparr>,
     env_after e s, counted c s)"
  using assms by (simp add: staged_def)

lemma staged_raised:
  "raised (staged conn e c s) = None \<longleftrightarrow> no_fault 3 (faults conn)"
  by (auto simp: no_fault_3 staged_def raised_def split: list.splits option.splits)

lemma staged_success_durable:
  assumes "no_fault 3 (faults conn)"
  shows "durable (conn_of (staged conn e c s)) = with_both (current conn) e c s"
  by (simp add: staged_success [OF assms] conn_of_def)


lemma event_kind_not_events: "event_kind s \<noteq> ''events''"
  by (cases s) simp_all

lemma event_kind_in_schema: "has_schema db \<Longrightarrow> map_of db (event_kind s) \<noteq> None"
  by (cases s) (auto simp: has_schema_iff)

lemma events_in_schema: "has_schema db \<Longrightarrow> map_of db ''events'' \<noteq> None"
  by (auto simp: has_schema_iff)


lemma rows_with_both:
  assumes "has_schema db"
  shows "table_rows (with_both db e c s) n =
     (if n = ''events'' then table_rows db ''events'' @ [event_row db e c s]
      else if n = event_kind s then table_rows db n @ [detail_row db e c s]
      else table_rows db n)"
  using events_in_schema [OF assms] event_kind_in_schema [OF assms, of s]
    event_kind_not_events [of s]
  by (auto simp: with_both_def with_event_def table_rows_append_row map_of_append_row)

lemma has_schema_with_event [simp]: "has_schema (with_event db e c s) = has_schema db"
  by (simp add: with_event_def)

lemma has_schema_with_both [simp]: "has_schema (with_both db e c s) = has_schema db"
  by (simp add: with_both_def)

lemma table_columns_append_row [simp]:
  "table_columns (append_row db n r) n' = table_columns db n'"
  by (auto simp: table_columns_def map_of_append_row split: option.splits)

lemma locked_conn_ready:
  "\<not> is_closed locked_conn \<and> has_schema (current locked_conn) \<and>
   faults locked_conn = [None, None, Some (OperationalError ''database is locked'')]"
  using example_conn_ready by (simp add: locked_conn_def)

lemma ctx_factory_eq:
  "ctx_factory e =
     (\<lparr>request_id = uuid_source e (drawn e), started = clock e (ticks e),
       request_chunk_index = 0, response_chunk_index = 0\<rparr>,
      e\<lparr>ticks := Suc (ticks e), drawn := Suc (drawn e)\<rparr>)"
  by (simp add: ctx_factory_def uuid4_hex_def time_time_def)

section \<open>The handlers and the context\<close>

text \<open>
  C10. The start, end and exception handlers return the context as they got it. The
  request-chunk handler returns it either unchanged or with the request-chunk counter
  one higher, the response-chunk handler either unchanged or with the response-chunk
  counter one higher; no other field differs (correlation id, start time and the other
  counter are the same), whatever the connection does. When a chunk handler returns
  normally its counter is one higher.
\<close>

theorem handlers_touch_only_their_counter:
  "ctx_of (on_request_start conn e c params) = c \<and>
   ctx_of (on_request_end conn e c response) = c \<and>
   ctx_of (on_request_exception conn e c exception_repr) = c \<and>
   (ctx_of (on_request_chunk_sent conn e c chunk) = c \<or>
    ctx_of (on_request_chunk_sent conn e c chunk) =
      c\<lparr>request_chunk_index := request_chunk_index c + 1\<rparr>) \<and>
   (ctx_of (on_response_chunk_received conn e c chunk) = c \<or>
    ctx_of (on_response_chunk_received conn e c chunk) =
      c\<lparr>response_chunk_index := response_chunk_index c + 1\<rparr>) \<and>
   (raised (on_request_chunk_sent conn e c chunk) = None \<longrightarrow>
      ctx_of (on_request_chunk_sent conn e c chunk) =
        c\<lparr>request_chunk_index := request_chunk_index c + 1\<rparr>) \<and>
   (raised (on_response_chunk_received conn e c chunk) = None \<longrightarrow>
      ctx_of (on_response_chunk_received conn e c chunk) =
        c\<lparr>response_chunk_index := response_chunk_index c + 1\<rparr>)"
  by (simp add: ctx_of_def raised_def on_request_start_def on_request_end_def
      on_request_exception_def on_request_chunk_sent_def on_response_chunk_received_def
      Let_def split: prod.split sum.split)

theorem handlers_touch_only_their_counter_witness:
  "raised (on_request_chunk_sent example_conn example_env example_ctx [1, 2, 3]) = None \<and>
   ctx_of (on_request_chunk_sent example_conn example_env example_ctx [1, 2, 3]) =
     \<lparr>request_id = ''9f1c'', started = 100, request_chunk_index = 1,
      response_chunk_index = 0\<rparr> \<and>
   raised (on_response_chunk_received example_conn example_env example_ctx [1, 2, 3]) = None \<and>
   ctx_of (on_response_chunk_received example_conn example_env example_ctx [1, 2, 3]) =
     \<lparr>request_id = ''9f1c'', started = 100, request_chunk_index = 0,
      response_chunk_index = 1\<rparr>"
proof -
  have sent: "raised (on_request_chunk_sent example_conn example_env example_ctx [1, 2, 3]) = None"
    using dispatch_staged [of example_conn example_env example_ctx "RequestChunkSent [1, 2, 3]"]
      example_conn_ready
    by (simp add: staged_def raised_def)
  have received:
    "raised (on_response_chunk_received example_conn example_env example_ctx [1, 2, 3]) = None"
    using dispatch_staged [of example_conn example_env example_ctx "ResponseChunkReceived [1, 2, 3]"]
      example_conn_ready
    by (simp add: staged_def raised_def)
  show ?thesis
    using handlers_touch_only_their_counter
        [of example_conn example_env example_ctx _ _ _ "[1, 2, 3]"] sent received
    by (simp add: example_ctx_eq)
qed

section \<open>The context factory\<close>





section \<open>Schema initialization is idempotent\<close>

lemma run_statement_alt:
  "run_statement db s =
     (if created_name s \<in> fst ` set db then db
      else db @ [(created_name s, \<lparr>columns = (case s of CREATE_TABLE_IF_NOT_EXISTS n cols \<Rightarrow> cols), rows = [], last_rowid = 0\<rparr>)])"
  by (cases s) (force simp: map_of_eq_None_iff dest: map_of_SomeD split: option.splits)

lemma run_script_names:
  "fst ` set (foldl run_statement db script) = fst ` set db \<union> created_name ` set script"
  by (induction script arbitrary: db) (auto simp: run_statement_alt)

lemma run_script_noop:
  "created_name ` set script \<subseteq> fst ` set db \<Longrightarrow> foldl run_statement db script = db"
  by (induction script arbitrary: db) (auto simp: run_statement_alt)

lemma run_script_twice:
  "foldl run_statement (foldl run_statement db script) script = foldl run_statement db script"
  by (rule run_script_noop) (simp add: run_script_names)

lemma run_script_extends:
  "\<exists>new. foldl run_statement db script = db @ new \<and> fst ` set new \<inter> fst ` set db = {}
     \<and> distinct (map fst new) \<and> (\<forall>t \<in> snd ` set new. rows t = [])"
proof (induction script arbitrary: db)
  case Nil
  show ?case by simp
next
  case (Cons s script)
  show ?case
  proof (cases "created_name s \<in> fst ` set db")
    case True
    then show ?thesis using Cons.IH [of db] by (simp add: run_statement_alt)
  next
    case False
    let ?e = "(created_name s, \<lparr>columns = (case s of CREATE_TABLE_IF_NOT_EXISTS n cols \<Rightarrow> cols), rows = [], last_rowid = 0\<rparr>)"
    from Cons.IH [of "db @ [?e]"] obtain new where
      new: "foldl run_statement (db @ [?e]) script = (db @ [?e]) @ new"
        "fst ` set new \<inter> fst ` set (db @ [?e]) = {}" "distinct (map fst new)"
        "\<forall>t \<in> snd ` set new. rows t = []"
      by blast
    have "foldl run_statement db (s # script) = db @ (?e # new)"
      using False new(1) by (simp add: run_statement_alt)
    moreover have "fst ` set (?e # new) \<inter> fst ` set db = {}"
      using False new(2) by auto
    moreover have "distinct (map fst (?e # new))"
      using new(2,3) by auto
    moreover have "\<forall>t \<in> snd ` set (?e # new). rows t = []"
      using new(4) by auto
    ultimately show ?thesis by blast
  qed
qed

lemma created_names_schema: "created_name ` set schema_script = set schema_names"
  by (simp add: schema_script_def schema_names_def)

lemma init_sqlite_ok:
  assumes "\<not> is_closed conn" "no_fault 2 (faults conn)"
  shows "init_sqlite conn =
    (None, conn\<lparr>faults := drop 2 (faults conn), current := initialized (current conn),
                durable := initialized (current conn)\<rparr>)"
  using assms
  by (auto simp: no_fault_2 init_sqlite_def executescript_def commit_def next_fault_def
      initialized_def Let_def)

lemma initialized_twice: "initialized (initialized db) = initialized db"
  by (simp add: initialized_def run_script_twice)

lemma init_calls_ok:
  assumes "\<not> is_closed conn" "no_fault (2 * Suc n) (faults conn)"
  shows "init_calls (Suc n) conn =
    (replicate (Suc n) None,
     conn\<lparr>faults := drop (2 * Suc n) (faults conn), current := initialized (current conn),
          durable := initialized (current conn)\<rparr>)"
  using assms
proof (induction n arbitrary: conn)
  case 0
  then show ?case by (simp add: init_sqlite_ok)
next
  case (Suc n)
  have split: "no_fault 2 (faults conn) \<and> no_fault (2 * Suc n) (drop 2 (faults conn))"
    using Suc.prems(2) no_fault_add [of 2 "2 * Suc n" "faults conn"] by simp
  let ?c1 = "conn\<lparr>faults := drop 2 (faults conn), current := initialized (current conn),
                durable := initialized (current conn)\<rparr>"
  have first: "init_sqlite conn = (None, ?c1)"
    using init_sqlite_ok Suc.prems(1) split by blast
  have "init_calls (Suc n) ?c1 = (replicate (Suc n) None,
     ?c1\<lparr>faults := drop (2 * Suc n) (faults ?c1), current := initialized (current ?c1),
          durable := initialized (current ?c1)\<rparr>)"
    using Suc.IH [of ?c1] Suc.prems(1) split by simp
  then have rest: "init_calls (Suc n) ?c1 = (replicate (Suc n) None,
     conn\<lparr>faults := drop (2 * Suc (Suc n)) (faults conn), current := initialized (current conn),
          durable := initialized (current conn)\<rparr>)"
    by (simp add: initialized_twice add.commute)
  show ?case
    by (simp only: init_calls.simps(2) [of "Suc n" conn] first prod.case rest replicate_Suc)
qed

text \<open>
  C6. On an open connection whose storage calls are let through, any number of calls of
  \<^verbatim>\<open>init_sqlite\<close> raise nothing and leave the database exactly as the first call left it:
  committed, holding the six tables of the script (\<^verbatim>\<open>events\<close> and the five detail tables),
  and differing from the database before the first call only by new, empty tables of
  the script that were missing, each once.
\<close>

theorem init_sqlite_idempotent:
  assumes "\<not> is_closed conn" "no_fault (2 * Suc n) (faults conn)"
  shows
    "fst (init_calls (Suc n) conn) = replicate (Suc n) None \<and>
     current (snd (init_calls (Suc n) conn)) = current (snd (init_sqlite conn)) \<and>
     durable (snd (init_calls (Suc n) conn)) = durable (snd (init_sqlite conn)) \<and>
     durable (snd (init_sqlite conn)) = current (snd (init_sqlite conn)) \<and>
     set schema_names \<subseteq> set (table_names (current (snd (init_sqlite conn)))) \<and>
     (\<exists>new. current (snd (init_sqlite conn)) = current conn @ new \<and>
        set (table_names new) \<inter> set (table_names (current conn)) = {} \<and>
        set (table_names new) \<subseteq> set schema_names \<and>
        distinct (table_names new))"
proof -
  have two: "no_fault 2 (faults conn)"
    using assms(2) no_fault_add [of 2 "2 * n" "faults conn"] by simp
  note one = init_sqlite_ok [OF assms(1) two]
  note many = init_calls_ok [OF assms]
  have names: "set schema_names \<subseteq> set (table_names (initialized (current conn)))"
    by (simp add: table_names_def initialized_def run_script_names created_names_schema)
  from run_script_extends [of "current conn" schema_script] obtain new where
    new: "initialized (current conn) = current conn @ new"
      "fst ` set new \<inter> fst ` set (current conn) = {}" "distinct (map fst new)"
    unfolding initialized_def by blast
  have all: "fst ` set (current conn @ new) = fst ` set (current conn) \<union> set schema_names"
    using run_script_names [of "current conn" schema_script] new(1)
    by (simp add: initialized_def created_names_schema)
  have "fst ` set new \<subseteq> fst ` set (current conn @ new)"
    by auto
  then have "fst ` set new \<subseteq> fst ` set (current conn) \<union> set schema_names"
    unfolding all .
  with new(2) have "fst ` set new \<subseteq> set schema_names"
    by blast
  with new have ext: "\<exists>new. initialized (current conn) = current conn @ new \<and>
        set (table_names new) \<inter> set (table_names (current conn)) = {} \<and>
        set (table_names new) \<subseteq> set schema_names \<and>
        distinct (table_names new)"
    by (auto simp: table_names_def)
  show ?thesis
    using names ext by (simp add: one many del: init_calls.simps)
qed

theorem init_sqlite_idempotent_witness:
  "\<not> is_closed new_connection \<and> no_fault (2 * Suc 1) (faults new_connection) \<and>
   fst (init_calls (Suc 1) new_connection) = [None, None] \<and>
   current (snd (init_calls (Suc 1) new_connection)) = current (snd (init_sqlite new_connection)) \<and>
   table_names (current (snd (init_sqlite new_connection))) = schema_names"
proof -
  have pre: "\<not> is_closed new_connection" "no_fault (2 * Suc 1) (faults new_connection)"
    by (simp_all add: new_connection_def)
  have names: "table_names (current (snd (init_sqlite new_connection))) = schema_names"
    by code_simp
  show ?thesis
    using init_sqlite_idempotent [OF pre] pre names by simp
qed

section \<open>The stages of a handler invocation\<close>




section \<open>One event row and one detail row per invocation\<close>






section \<open>The elapsed time of a request\<close>

lemma request_end_columns:
  "has_schema db \<Longrightarrow> table_columns db ''request_end'' =
        [Column ''event_id'' INTEGER [NOT_NULL, REFERENCES ''events'' ''id''],
         Column ''status'' INTEGER [NOT_NULL],
         Column ''reason'' TEXT [],
         Column ''headers'' TEXT [NOT_NULL],
         Column ''elapsed'' REAL [NOT_NULL]]"
  by (auto simp: has_schema_iff table_columns_def)

text \<open>
  C5, as amended. When the end handler returns normally, the row it added to
  \<^verbatim>\<open>request_end\<close> has as \<^verbatim>\<open>elapsed\<close> the clock's reading at the start of the handler minus the
  context's start time. The value is not negative exactly when the clock has not been
  set back behind the start time; nothing in the handler makes it so.
\<close>

theorem request_end_elapsed:
  assumes "\<not> is_closed conn" "has_schema (current conn)"
    and "out = on_request_end conn e c response"
    and "raised out = None"
    and "row = last (table_rows (durable (conn_of out)) ''request_end'')"
  shows
    "table_rows (durable (conn_of out)) ''request_end'' =
       table_rows (current conn) ''request_end'' @ [row] \<and>
     field (table_columns (durable (conn_of out)) ''request_end'') ''elapsed'' row =
       SqlReal (clock e (ticks e) - started c) \<and>
     (0 \<le> clock e (ticks e) - started c \<longleftrightarrow> started c \<le> clock e (ticks e))"
proof -
  have out: "out = staged conn e c (RequestEnd response)"
    using dispatch_staged [OF assms(1,2), of e c "RequestEnd response"] assms(3) by simp
  have nf: "no_fault 3 (faults conn)"
    using assms(4) unfolding out by (simp add: staged_raised)
  have db: "durable (conn_of out) = with_both (current conn) e c (RequestEnd response)"
    unfolding out by (simp add: staged_success [OF nf] conn_of_def)
  have rows: "table_rows (durable (conn_of out)) ''request_end'' =
      table_rows (current conn) ''request_end'' @
        [detail_row (current conn) e c (RequestEnd response)]"
    unfolding db using assms(2) by (simp add: rows_with_both)
  then have row: "row = detail_row (current conn) e c (RequestEnd response)"
    using assms(5) by simp
  have cols: "table_columns (durable (conn_of out)) ''request_end'' =
      table_columns (current conn) ''request_end''"
    unfolding db by (simp add: with_both_def with_event_def)
  show ?thesis
    using rows assms(2)
    by (simp add: row cols request_end_columns field_def detail_row_def)
qed

theorem request_end_elapsed_witness:
  "raised (on_request_end example_conn (snd (ctx_factory example_env)) example_ctx ok_response) = None \<and>
   field (table_columns (durable (conn_of
            (on_request_end example_conn (snd (ctx_factory example_env)) example_ctx ok_response)))
          ''request_end'') ''elapsed''
     (last (table_rows (durable (conn_of
            (on_request_end example_conn (snd (ctx_factory example_env)) example_ctx ok_response)))
          ''request_end'')) = SqlReal 1"
proof -
  have ok: "raised (on_request_end example_conn (snd (ctx_factory example_env)) example_ctx ok_response) = None"
    using dispatch_staged [of example_conn "snd (ctx_factory example_env)" example_ctx "RequestEnd ok_response"]
      example_conn_ready
    by (simp add: staged_raised)
  note a = request_end_elapsed [of example_conn _ "snd (ctx_factory example_env)" example_ctx ok_response,
      OF _ _ refl ok refl]
  show ?thesis
    using a ok example_conn_ready
    by (simp add: example_ctx_eq ctx_factory_eq example_env_def)
qed

text \<open>
  The claim as stated (elapsed is always at least 0) fails when the wall clock is set
  back between the creation of the context and the end of the request: the context
  started at 100, the handler reads 50 and records an elapsed time of -50.
\<close>

theorem request_end_negative_elapsed_counterexample:
  "started (fst (ctx_factory backward_env)) = 100 \<and>
   raised (on_request_end example_conn (snd (ctx_factory backward_env))
            (fst (ctx_factory backward_env)) ok_response) = None \<and>
   table_rows (durable (conn_of (on_request_end example_conn (snd (ctx_factory backward_env))
            (fst (ctx_factory backward_env)) ok_response))) ''request_end'' =
     [[SqlInteger 1, SqlInteger 200, SqlText ''OK'', SqlText ''[]'', SqlReal (- 50)]]"
  by code_simp

section \<open>Storage errors\<close>

lemma staged_failure:
  assumes "faults conn = replicate k None @ Some err # fs" "k < 3" "has_schema (current conn)"
  shows "raised (staged conn e c s) = Some err \<and> faults (conn_of (staged conn e c s)) = fs \<and>
     durable (conn_of (staged conn e c s)) = durable conn \<and>
     is_closed (conn_of (staged conn e c s)) = is_closed conn \<and>
     has_schema (current (conn_of (staged conn e c s)))"
proof -
  from assms(2) consider "k = 0" | "k = 1" | "k = 2"
    by linarith
  then show ?thesis
  proof cases
    case 1
    with assms(1,3) show ?thesis
      by (simp add: staged_fail_event raised_def conn_of_def)
  next
    case 2
    with assms(1,3) show ?thesis
      by (simp add: staged_fail_detail raised_def conn_of_def)
  next
    case 3
    with assms(1,3) show ?thesis
      by (simp add: staged_fail_commit raised_def conn_of_def numeral_2_eq_2)
  qed
qed

text \<open>
  C8. On an open connection with the schema, let the event insert, the detail insert or
  the commit of a handler invocation raise \<open>err\<close> (the \<open>k\<close> calls before it succeed). Then
  the invocation raises exactly \<open>err\<close>, it makes no storage call after the failed one
  (the verdicts left for later calls are untouched, so nothing is retried), and what was
  durable stays durable. A later invocation, for any context and any signal, whose three
  storage calls succeed returns normally and has its event row and its detail row in
  the durable state.
\<close>

theorem storage_error_propagates:
  assumes "\<not> is_closed conn" "has_schema (current conn)"
    and "faults conn = replicate k None @ Some err # fs" "k < 3"
    and "out1 = dispatch conn e c1 s1"
    and "no_fault 3 fs"
    and "out2 = dispatch (conn_of out1) (env_of out1) c2 s2"
    and "event_id = events_seq (current (conn_of out1)) + 1"
  shows
    "raised out1 = Some err \<and> faults (conn_of out1) = fs \<and>
     durable (conn_of out1) = durable conn \<and>
     raised out2 = None \<and>
     table_rows (durable (conn_of out2)) ''events'' =
       table_rows (current (conn_of out1)) ''events'' @
         [[SqlInteger event_id, SqlReal (event_time (env_of out1) s2), SqlText (request_id c2),
           SqlText (event_kind s2)]] \<and>
     table_rows (durable (conn_of out2)) (event_kind s2) =
       table_rows (current (conn_of out1)) (event_kind s2) @
         [SqlInteger event_id # detail_values (env_of out1) c2 s2]"
proof -
  have out1: "out1 = staged conn e c1 s1"
    using assms(1,2,5) by (simp add: dispatch_staged)
  note first = staged_failure [OF assms(3,4,2), of e c1 s1, folded out1]
  have out2: "out2 = staged (conn_of out1) (env_of out1) c2 s2"
    using first assms(1,7) by (simp add: dispatch_staged)
  have nf: "no_fault 3 (faults (conn_of out1))"
    using first assms(6) by simp
  have db: "durable (conn_of out2) = with_both (current (conn_of out1)) (env_of out1) c2 s2"
    unfolding out2 by (rule staged_success_durable [OF nf])
  have ok: "raised out2 = None"
    unfolding out2 using nf by (simp add: staged_raised)
  have kind: "event_kind s2 \<noteq> ''events''"
    by (rule event_kind_not_events)
  show ?thesis
    using first ok kind assms(8)
    by (simp add: db rows_with_both event_row_def detail_row_def)
qed

theorem storage_error_propagates_witness:
  "raised (dispatch locked_conn example_env example_ctx (RequestChunkSent [1, 2, 3])) =
     Some (OperationalError ''database is locked'') \<and>
   faults (conn_of (dispatch locked_conn example_env example_ctx (RequestChunkSent [1, 2, 3]))) = [] \<and>
   raised (dispatch (conn_of (dispatch locked_conn example_env example_ctx (RequestChunkSent [1, 2, 3])))
            (env_of (dispatch locked_conn example_env example_ctx (RequestChunkSent [1, 2, 3])))
            example_ctx (RequestException ''TimeoutError()'')) = None \<and>
   table_rows (durable (conn_of
       (dispatch (conn_of (dispatch locked_conn example_env example_ctx (RequestChunkSent [1, 2, 3])))
            (env_of (dispatch locked_conn example_env example_ctx (RequestChunkSent [1, 2, 3])))
            example_ctx (RequestException ''TimeoutError()'')))) ''request_exception'' =
     [[SqlInteger 2, SqlText ''TimeoutError()'']]"
proof -
  have pre: "faults locked_conn = replicate 2 None @ Some (OperationalError ''database is locked'') # []"
    "(2::nat) < 3" "no_fault 3 []"
    using locked_conn_ready by (simp_all add: numeral_2_eq_2)
  have seq: "events_seq (current (conn_of (dispatch locked_conn example_env example_ctx
       (RequestChunkSent [1, 2, 3])))) = 1"
    "table_rows (current (conn_of (dispatch locked_conn example_env example_ctx
       (RequestChunkSent [1, 2, 3])))) ''request_exception'' = []"
    by code_simp+
  note a = storage_error_propagates [of locked_conn 2 "OperationalError ''database is locked''" "[]"
      _ example_env example_ctx "RequestChunkSent [1, 2, 3]" _ example_ctx
      "RequestException ''TimeoutError()''", OF _ _ pre(1,2) refl pre(3) refl refl]
  show ?thesis
    using a locked_conn_ready seq by simp
qed

section \<open>The recorder's registrations\<close>

lemma execute_insert_closed [simp]:
  "is_closed (snd (execute_insert conn tn names vals)) = is_closed conn"
  by (simp add: execute_insert_def next_fault_def split: list.splits option.splits sum.splits prod.splits)

lemma commit_closed [simp]: "is_closed (snd (commit conn)) = is_closed conn"
  by (simp add: commit_def next_fault_def split: list.splits option.splits)

lemma insert_event_closed [simp]:
  "is_closed (fst (snd (insert_event conn e rid k))) = is_closed conn"
proof -
  obtain r conn' where *: "execute_insert conn ''events'' [''ts'', ''request_id'', ''event_type'']
      [SqlReal (clock e (ticks e)), SqlText rid, SqlText k] = (r, conn')"
    by (cases "execute_insert conn ''events'' [''ts'', ''request_id'', ''event_type'']
      [SqlReal (clock e (ticks e)), SqlText rid, SqlText k]")
  have "is_closed conn' = is_closed conn"
    using execute_insert_closed [of conn "''events''" "[''ts'', ''request_id'', ''event_type'']"
        "[SqlReal (clock e (ticks e)), SqlText rid, SqlText k]"] *
    by simp
  then show ?thesis
    by (simp add: insert_event_def time_time_def *)
qed

lemma handler_closed:
  assumes "insert_event conn e0 rid k = (r1, conn1, e1)"
  shows "is_closed conn1 = is_closed conn"
  using insert_event_closed [of conn e0 rid k] assms by simp

lemma dispatch_closed: "is_closed (conn_of (dispatch conn e c s)) = is_closed conn"
proof -
  have ex: "execute_insert a tn ns vs = (r, b) \<Longrightarrow> is_closed b = is_closed a" for a tn ns vs r b
    using execute_insert_closed [of a tn ns vs] by simp
  have co: "commit a = (r, b) \<Longrightarrow> is_closed b = is_closed a" for a r b
    using commit_closed [of a] by simp
  show ?thesis
    by (cases s)
      (auto simp: conn_of_def on_request_start_def on_request_end_def on_request_exception_def
        on_request_chunk_sent_def on_response_chunk_received_def Let_def
        split: prod.splits sum.splits dest!: handler_closed ex co)
qed

lemma bound_closed:
  assumes "\<And>conn e c p. is_closed (conn_of (f conn e c p)) = is_closed conn"
  shows "is_closed (fst (snd (bound h f st e c p)) h') = is_closed (st h')"
  using assms [of "st h" e c p] by (auto simp: bound_def conn_of_def split: prod.splits)

lemma bound_only:
  "(fst (snd (bound h f st e c p)))(h := st h) = st"
  by (auto simp: bound_def split: prod.splits)

text \<open>
  C9. Constructing the recorder from a handle \<open>h\<close> leaves every connection as it was,
  keeps \<open>h\<close>, gives the registry the shared context factory, and registers exactly one
  handler at each of the five hook points: the recorder's own method for that kind,
  bound to \<open>h\<close>. Whenever one of these handlers runs, no handle is opened or closed (the
  \<open>is_closed\<close> flag of every connection is as before) and no connection but the one behind
  \<open>h\<close> is touched.
\<close>

theorem recorder_registers_one_handler_per_signal:
  "snd (SQLiteTraceRecorder st h) = st \<and>
   conn_handle (fst (SQLiteTraceRecorder st h)) = h \<and>
   trace_config_ctx_factory (trace_config (fst (SQLiteTraceRecorder st h))) = ctx_factory \<and>
   signal_request_start (trace_config (fst (SQLiteTraceRecorder st h))) =
     [bound h on_request_start] \<and>
   signal_request_end (trace_config (fst (SQLiteTraceRecorder st h))) =
     [bound h on_request_end] \<and>
   signal_request_exception (trace_config (fst (SQLiteTraceRecorder st h))) =
     [bound h on_request_exception] \<and>
   signal_request_chunk_sent (trace_config (fst (SQLiteTraceRecorder st h))) =
     [bound h on_request_chunk_sent] \<and>
   signal_response_chunk_received (trace_config (fst (SQLiteTraceRecorder st h))) =
     [bound h on_response_chunk_received] \<and>
   (\<forall>st' e c p h'.
      is_closed (fst (snd (bound h on_request_start st' e c p)) h') = is_closed (st' h') \<and>
      (fst (snd (bound h on_request_start st' e c p)))(h := st' h) = st') \<and>
   (\<forall>st' e c p h'.
      is_closed (fst (snd (bound h on_request_end st' e c p)) h') = is_closed (st' h') \<and>
      (fst (snd (bound h on_request_end st' e c p)))(h := st' h) = st') \<and>
   (\<forall>st' e c p h'.
      is_closed (fst (snd (bound h on_request_exception st' e c p)) h') = is_closed (st' h') \<and>
      (fst (snd (bound h on_request_exception st' e c p)))(h := st' h) = st') \<and>
   (\<forall>st' e c p h'.
      is_closed (fst (snd (bound h on_request_chunk_sent st' e c p)) h') = is_closed (st' h') \<and>
      (fst (snd (bound h on_request_chunk_sent st' e c p)))(h := st' h) = st') \<and>
   (\<forall>st' e c p h'.
      is_closed (fst (snd (bound h on_response_chunk_received st' e c p)) h') = is_closed (st' h') \<and>
      (fst (snd (bound h on_response_chunk_received st' e c p)))(h := st' h) = st')"
proof -
  have 1: "is_closed (conn_of (on_request_start conn e c p)) = is_closed conn" for conn e c p
    using dispatch_closed [of conn e c "RequestStart p"] by simp
  have 2: "is_closed (conn_of (on_request_end conn e c p)) = is_closed conn" for conn e c p
    using dispatch_closed [of conn e c "RequestEnd p"] by simp
  have 3: "is_closed (conn_of (on_request_exception conn e c p)) = is_closed conn" for conn e c p
    using dispatch_closed [of conn e c "RequestException p"] by simp
  have 4: "is_closed (conn_of (on_request_chunk_sent conn e c p)) = is_closed conn" for conn e c p
    using dispatch_closed [of conn e c "RequestChunkSent p"] by simp
  have 5: "is_closed (conn_of (on_response_chunk_received conn e c p)) = is_closed conn" for conn e c p
    using dispatch_closed [of conn e c "ResponseChunkReceived p"] by simp
  show ?thesis
    by (simp add: SQLiteTraceRecorder_def TraceConfig_def Let_def bound_only
        bound_closed [of on_request_start, OF 1] bound_closed [of on_request_end, OF 2]
        bound_closed [of on_request_exception, OF 3] bound_closed [of on_request_chunk_sent, OF 4]
        bound_closed [of on_response_chunk_received, OF 5])
qed

section \<open>Chunk indices\<close>


















lemma request_id_counted [simp]: "request_id (counted c s) = request_id c"
  by (cases s) simp_all














section \<open>The header round trip\<close>

lemma hex_value_digit: "d < 16 \<Longrightarrow> hex_value (hex_digit d) = Some d"
  by (simp add: hex_value_def hex_digit_def Let_def)

lemma hex4_sum:
  fixes n :: nat
  assumes "n < 65536"
  shows "((n div 4096 mod 16 * 16 + n div 256 mod 16) * 16 + n div 16 mod 16) * 16 + n mod 16 = n"
proof -
  define m where "m = n div 16"
  define k where "k = m div 16"
  define j where "j = k div 16"
  have k: "n div 256 = k"
    unfolding k_def m_def by (simp add: div_mult2_eq [symmetric])
  have j: "n div 4096 = j"
    unfolding j_def k_def m_def by (simp add: div_mult2_eq [symmetric])
  have "j < 16"
    using assms unfolding j [symmetric] by (simp add: less_mult_imp_div_less)
  then have "(j mod 16 * 16 + k mod 16) = k"
    unfolding j_def by simp
  then have "((j mod 16 * 16 + k mod 16) * 16 + m mod 16) = m"
    unfolding k_def by simp
  then have "((j mod 16 * 16 + k mod 16) * 16 + m mod 16) * 16 + n mod 16 = n"
    unfolding m_def by simp
  then show ?thesis
    unfolding j k m_def .
qed

lemma hex4_value_hex4:
  assumes "n < 65536"
  shows "hex4_value (hex_digit (n div 4096 mod 16)) (hex_digit (n div 256 mod 16))
           (hex_digit (n div 16 mod 16)) (hex_digit (n mod 16)) = Some n"
proof -
  have "hex4_value (hex_digit (n div 4096 mod 16)) (hex_digit (n div 256 mod 16))
           (hex_digit (n div 16 mod 16)) (hex_digit (n mod 16)) =
        Some (((n div 4096 mod 16 * 16 + n div 256 mod 16) * 16 + n div 16 mod 16) * 16 + n mod 16)"
    unfolding hex4_value_def by (simp only: hex_value_digit mod_less_divisor zero_less_numeral prod.case option.case)
  then show ?thesis
    by (simp only: hex4_sum [OF assms])
qed

lemma chars_differ [simp]:
  "backslash \<noteq> dquote" "dquote \<noteq> backslash" "backslash \<noteq> CHR ''u''" "dquote \<noteq> CHR ''u''"
  "of_char backslash = (0x5C :: nat)" "of_char dquote = (0x22 :: nat)"
  by (simp_all add: backslash_def dquote_def)

lemma unescape_u4:
  assumes "n < 65536"
  shows "unescape (CHR ''u'' # hex4 n @ tail) =
    (if is_high_surrogate n \<and> take 2 tail = [backslash, CHR ''u''] then
       (case drop 2 tail of
          l1 # l2 # l3 # l4 # rest2 \<Rightarrow>
            (case hex4_value l1 l2 l3 l4 of
               None \<Rightarrow> None
             | Some uni2 \<Rightarrow>
                 if is_low_surrogate uni2 then
                   Some (0x10000 + ((n - 0xD800) * 1024 + (uni2 - 0xDC00)), 11)
                 else Some (n, 5))
        | _ \<Rightarrow> None)
     else Some (n, 5))"
  by (simp add: unescape_def hex4_def hex4_value_hex4 [OF assms])

lemma unescape_single:
  assumes "n < 65536" "is_high_surrogate n \<Longrightarrow> no_pair_ahead tail"
  shows "unescape (CHR ''u'' # hex4 n @ tail) = Some (n, 5)"
proof (cases "is_high_surrogate n \<and> take 2 tail = [backslash, CHR ''u'']")
  case False
  then show ?thesis
    by (auto simp: unescape_u4 [OF assms(1)])
next
  case True
  with assms(2) obtain l1 l2 l3 l4 rest m where
    "drop 2 tail = l1 # l2 # l3 # l4 # rest" "hex4_value l1 l2 l3 l4 = Some m"
    "\<not> is_low_surrogate m"
    unfolding no_pair_ahead_def by blast
  with True show ?thesis
    by (simp add: unescape_u4 [OF assms(1)])
qed

lemma surrogates_of:
  fixes a :: nat
  assumes "0x10000 \<le> a" "a < 0x110000"
  defines "v \<equiv> a - 0x10000"
  shows "0xD800 + v div 1024 mod 1024 < 65536" "0xDC00 + v mod 1024 < 65536"
    "is_high_surrogate (0xD800 + v div 1024 mod 1024)" "is_low_surrogate (0xDC00 + v mod 1024)"
    "0x10000 + ((0xD800 + v div 1024 mod 1024 - 0xD800) * 1024 + (0xDC00 + v mod 1024 - 0xDC00)) = a"
proof -
  have v: "v < 0x100000"
    using assms(1,2) unfolding v_def by simp
  then have d: "v div 1024 < 1024"
    by (simp add: less_mult_imp_div_less)
  have m: "v mod 1024 < 1024"
    by simp
  show "0xD800 + v div 1024 mod 1024 < 65536" "0xDC00 + v mod 1024 < 65536"
    using d m by simp_all
  show "is_high_surrogate (0xD800 + v div 1024 mod 1024)"
    using d by (simp add: is_high_surrogate_def)
  show "is_low_surrogate (0xDC00 + v mod 1024)"
    using m by (simp add: is_low_surrogate_def)
  have "v div 1024 * 1024 + v mod 1024 = v"
    by simp
  then show "0x10000 + ((0xD800 + v div 1024 mod 1024 - 0xD800) * 1024 + (0xDC00 + v mod 1024 - 0xDC00)) = a"
    using d assms(1) unfolding v_def by simp
qed

lemma unescape_pair:
  fixes a :: nat
  assumes "0x10000 \<le> a" "a < 0x110000"
  shows "unescape (CHR ''u'' # hex4 (0xD800 + (a - 0x10000) div 1024 mod 1024) @
           backslash # CHR ''u'' # hex4 (0xDC00 + (a - 0x10000) mod 1024) @ tail) = Some (a, 11)"
proof -
  define hi where "hi = 0xD800 + (a - 0x10000) div 1024 mod 1024"
  define lo where "lo = 0xDC00 + (a - 0x10000) mod 1024"
  note s = surrogates_of [OF assms, folded hi_def lo_def]
  have lo: "hex4 lo @ tail =
      hex_digit (lo div 4096 mod 16) # hex_digit (lo div 256 mod 16) #
      hex_digit (lo div 16 mod 16) # hex_digit (lo mod 16) # tail"
    by (simp add: hex4_def)
  have "unescape (CHR ''u'' # hex4 hi @ backslash # CHR ''u'' # hex4 lo @ tail) =
      Some (0x10000 + ((hi - 0xD800) * 1024 + (lo - 0xDC00)), 11)"
    unfolding unescape_u4 [OF s(1)]
    using s(3,4) by (simp add: lo hex4_value_hex4 [OF s(2)])
  then show ?thesis
    unfolding s(5) unfolding hi_def lo_def .
qed

lemma char_of_neq:
  fixes a :: nat
  assumes "a < 256" "of_char c \<noteq> a"
  shows "char_of a \<noteq> c"
proof
  assume "char_of a = c"
  then have "of_char (char_of a) = (of_char c :: nat)"
    by simp
  with assms show False
    by simp
qed

lemma escape_char_cases:
  fixes a :: nat
  obtains (short) e where "escape_char a = [backslash, e]" "e \<noteq> CHR ''u''" "short_escape e = Some a"
  | (plain) "escape_char a = [char_of a]" "0x20 \<le> a" "a \<le> 0x7E" "a \<noteq> 0x22" "a \<noteq> 0x5C"
  | (unit) "escape_char a = backslash # CHR ''u'' # hex4 a" "a < 0x10000"
  | (pair) "escape_char a =
       backslash # CHR ''u'' # hex4 (0xD800 + (a - 0x10000) div 1024 mod 1024) @
       backslash # CHR ''u'' # hex4 (0xDC00 + (a - 0x10000) mod 1024)" "0x10000 \<le> a"
proof -
  consider "a = 0x5C" | "a = 0x22" | "a = 0x08" | "a = 0x0C" | "a = 0x0A" | "a = 0x0D" | "a = 0x09"
    | "a \<notin> {0x5C, 0x22, 0x08, 0x0C, 0x0A, 0x0D, 0x09}" "0x20 \<le> a" "a \<le> 0x7E"
    | "a \<notin> {0x5C, 0x22, 0x08, 0x0C, 0x0A, 0x0D, 0x09}" "\<not> (0x20 \<le> a \<and> a \<le> 0x7E)" "a < 0x10000"
    | "a \<notin> {0x5C, 0x22, 0x08, 0x0C, 0x0A, 0x0D, 0x09}" "\<not> (0x20 \<le> a \<and> a \<le> 0x7E)" "0x10000 \<le> a"
    by fastforce
  then show ?thesis
  proof cases
    case 1 then show ?thesis by (intro short [of backslash]) (simp_all add: escape_char_def short_escape_def)
  next
    case 2 then show ?thesis by (intro short [of dquote]) (simp_all add: escape_char_def short_escape_def)
  next
    case 3 then show ?thesis by (intro short [of "CHR ''b''"]) (simp_all add: escape_char_def short_escape_def dquote_def backslash_def)
  next
    case 4 then show ?thesis by (intro short [of "CHR ''f''"]) (simp_all add: escape_char_def short_escape_def dquote_def backslash_def)
  next
    case 5 then show ?thesis by (intro short [of "CHR ''n''"]) (simp_all add: escape_char_def short_escape_def dquote_def backslash_def)
  next
    case 6 then show ?thesis by (intro short [of "CHR ''r''"]) (simp_all add: escape_char_def short_escape_def dquote_def backslash_def)
  next
    case 7 then show ?thesis by (intro short [of "CHR ''t''"]) (simp_all add: escape_char_def short_escape_def dquote_def backslash_def)
  next
    case 8 then show ?thesis by (intro plain) (simp_all add: escape_char_def)
  next
    case 9 then show ?thesis by (intro unit) (auto simp: escape_char_def u_escape_def)
  next
    case 10 then show ?thesis by (intro pair) (auto simp: escape_char_def u_escape_def Let_def)
  qed
qed

lemma scan_escape:
  assumes "a < 0x110000" "is_high_surrogate a \<Longrightarrow> no_pair_ahead tail"
  shows "scan_string (escape_char a @ tail) = cons_char a (scan_string tail)"
proof (cases a rule: escape_char_cases)
  case (short e)
  then show ?thesis
    by (simp add: unescape_def)
next
  case plain
  have "char_of a \<noteq> dquote" "char_of a \<noteq> backslash"
    using plain char_of_neq [of a dquote] char_of_neq [of a backslash] by simp_all
  moreover have "of_char (char_of a) = a"
    using plain by simp
  ultimately show ?thesis
    using plain by simp
next
  case unit
  have "unescape (CHR ''u'' # hex4 a @ tail) = Some (a, 5)"
    using unit(2) assms(2) by (intro unescape_single) simp_all
  then show ?thesis
    by (simp add: unit(1) hex4_def)
next
  case pair
  have "unescape (CHR ''u'' # hex4 (0xD800 + (a - 0x10000) div 1024 mod 1024) @
           backslash # CHR ''u'' # hex4 (0xDC00 + (a - 0x10000) mod 1024) @ tail) = Some (a, 11)"
    using pair(2) assms(1) by (rule unescape_pair)
  then show ?thesis
    by (simp add: pair(1) hex4_def)
qed

lemma no_pair_ahead_quote: "no_pair_ahead (dquote # rest)"
  by (simp add: no_pair_ahead_def)

lemma no_pair_ahead_escape:
  assumes "b < 0x110000" "\<not> is_low_surrogate b"
  shows "no_pair_ahead (escape_char b @ t)"
proof (cases b rule: escape_char_cases)
  case (short e)
  then show ?thesis
    by (simp add: no_pair_ahead_def)
next
  case plain
  have "char_of b \<noteq> backslash"
    using plain char_of_neq [of b backslash] by simp
  then show ?thesis
    using plain by (cases t) (simp_all add: no_pair_ahead_def)
next
  case unit
  have "hex4_value (hex_digit (b div 4096 mod 16)) (hex_digit (b div 256 mod 16))
           (hex_digit (b div 16 mod 16)) (hex_digit (b mod 16)) = Some b"
    using unit(2) by (intro hex4_value_hex4) simp
  then show ?thesis
    using assms(2) unfolding no_pair_ahead_def unit(1)
    by (simp add: hex4_def)
next
  case pair
  define hi where "hi = 0xD800 + (b - 0x10000) div 1024 mod 1024"
  note s = surrogates_of [OF pair(2) assms(1), folded hi_def]
  have "hex4_value (hex_digit (hi div 4096 mod 16)) (hex_digit (hi div 256 mod 16))
           (hex_digit (hi div 16 mod 16)) (hex_digit (hi mod 16)) = Some hi"
    using s(1) by (rule hex4_value_hex4)
  moreover have "\<not> is_low_surrogate hi"
    using s(3) by (simp add: is_high_surrogate_def is_low_surrogate_def)
  ultimately show ?thesis
    unfolding no_pair_ahead_def pair(1) hi_def [symmetric]
    by (simp add: hex4_def)
qed

lemma scan_string_encoded:
  assumes "json_safe s"
  shows "scan_string (concat (map escape_char s) @ dquote # rest) = Some (s, rest)"
  using assms
proof (induction s)
  case Nil
  show ?case by simp
next
  case (Cons a s)
  have ahead: "no_pair_ahead (concat (map escape_char s) @ dquote # rest)"
    if "is_high_surrogate a"
  proof (cases s)
    case Nil
    then show ?thesis by (simp add: no_pair_ahead_quote)
  next
    case (Cons b s')
    with Cons.prems that have "b < 0x110000" "\<not> is_low_surrogate b"
      by simp_all
    then show ?thesis
      unfolding Cons by (simp add: no_pair_ahead_escape)
  qed
  have "scan_string (escape_char a @ concat (map escape_char s) @ dquote # rest) =
      cons_char a (scan_string (concat (map escape_char s) @ dquote # rest))"
    using Cons.prems ahead by (intro scan_escape) simp_all
  then show ?case
    using Cons.IH Cons.prems by (simp add: cons_char_def)
qed

text \<open>Every parser consumes input, so the comparison of the lengths in \<open>parse_items\<close> never fails.\<close>

lemma cons_char_Some:
  "cons_char n r = Some (s, rest) \<longleftrightarrow> (\<exists>s'. r = Some (s', rest) \<and> s = n # s')"
  by (auto simp: cons_char_def split: option.splits)

lemma scan_string_shorter: "scan_string s = Some (x, r) \<Longrightarrow> length r < length s"
proof (induction s arbitrary: x r rule: scan_string.induct)
  case 1
  then show ?case by simp
next
  case (2 c cs)
  show ?case
  proof (cases "c = dquote")
    case True
    with "2.prems" show ?thesis by simp
  next
    case quote: False
    show ?thesis
    proof (cases "c = backslash")
      case True
      with quote "2.prems" obtain n k x' where
        u: "unescape cs = Some (n, k)" and r: "scan_string (drop k cs) = Some (x', r)"
        by (auto simp: cons_char_Some split: option.splits)
      from "2.IH"(1) [OF quote True u refl r] show ?thesis
        by simp
    next
      case False
      with quote "2.prems" obtain x' where r: "\<not> (of_char c :: nat) < 0x20"
        "scan_string cs = Some (x', r)"
        by (auto simp: cons_char_Some split: if_splits)
      from "2.IH"(2) [OF quote False r(1) r(2)] show ?thesis
        by simp
    qed
  qed
qed

lemma skip_ws_length: "length (skip_ws s) \<le> length s"
  by (simp add: skip_ws_def length_dropWhile_le)

lemma expect_shorter: "expect c s = Some r \<Longrightarrow> length r < length s"
  using skip_ws_length [of s]
  by (auto simp: expect_def split: list.splits if_splits)

lemma parse_string_shorter: "parse_string s = Some (x, r) \<Longrightarrow> length r < length s"
  by (auto simp: parse_string_def split: option.splits
      dest!: expect_shorter scan_string_shorter)

lemma parse_pair_shorter: "parse_pair s = Some (p, r) \<Longrightarrow> length r < length s"
  by (auto simp: parse_pair_def split: option.splits
      dest!: expect_shorter parse_string_shorter)

lemma parse_items_progress:
  assumes "parse_pair s = Some (p, r)" "skip_ws r = c # r'"
  shows "length r' < length s"
  using parse_pair_shorter [OF assms(1)] skip_ws_length [of r] assms(2) by simp

lemma not_ws [simp]:
  "\<not> is_ws dquote" "\<not> is_ws CHR ''[''" "\<not> is_ws CHR '']''" "\<not> is_ws CHR '',''" "is_ws CHR '' ''"
  by (simp_all add: is_ws_def dquote_def)

lemma expect_here: "\<not> is_ws c \<Longrightarrow> expect c (c # s) = Some s"
  by (simp add: expect_def skip_ws_def)

lemma expect_space: "expect c (CHR '' '' # s) = expect c s"
  by (simp add: expect_def skip_ws_def)

lemma expect_other: "\<not> is_ws d \<Longrightarrow> d \<noteq> c \<Longrightarrow> expect c (d # s) = None"
  by (simp add: expect_def skip_ws_def)

lemma parse_string_encoded:
  assumes "json_safe s"
  shows "parse_string (encode_str s @ rest) = Some (s, rest)"
  using scan_string_encoded [OF assms, of rest]
  by (simp add: parse_string_def encode_str_def expect_here)

lemma parse_string_space: "parse_string (CHR '' '' # s) = parse_string s"
  by (simp add: parse_string_def expect_space)

lemma parse_pair_dumps:
  assumes "json_safe (fst p)" "json_safe (snd p)"
  shows "parse_pair (dumps_pair p @ rest) = Some (p, rest)"
proof -
  have 1: "parse_string (encode_str (fst p) @ '', '' @ encode_str (snd p) @ '']'' @ rest) =
      Some (fst p, '', '' @ encode_str (snd p) @ '']'' @ rest)"
    using assms(1) by (rule parse_string_encoded)
  have 2: "parse_string (encode_str (snd p) @ '']'' @ rest) = Some (snd p, '']'' @ rest)"
    using assms(2) by (rule parse_string_encoded)
  show ?thesis
    using 1 2
    by (simp add: parse_pair_def dumps_pair_def expect_here expect_space parse_string_space)
qed

lemma parse_pair_space: "parse_pair (CHR '' '' # s) = parse_pair s"
  by (simp add: parse_pair_def expect_space)

lemma parse_items_space: "parse_items (CHR '' '' # s) = parse_items s"
proof -
  have progress: "length r' < length s"
    if "parse_pair s = Some (p, r)" "skip_ws r = c # r'" for p r c r'
    using that by (rule parse_items_progress)
  show ?thesis
    by (subst parse_items.simps, subst (2) parse_items.simps)
       (auto simp: parse_pair_space less_Suc_eq progress split: option.splits list.splits)
qed

lemma parse_items_join:
  assumes "list_all (\<lambda>p. json_safe (fst p) \<and> json_safe (snd p)) (p # ps)"
  shows "parse_items (join '', '' (map dumps_pair (p # ps)) @ '']'' @ rest) = Some (p # ps, rest)"
  using assms
proof (induction ps arbitrary: p)
  case Nil
  then have "parse_pair (dumps_pair p @ '']'' @ rest) = Some (p, '']'' @ rest)"
    by (intro parse_pair_dumps) simp_all
  then show ?case
    by (subst parse_items.simps) (simp add: skip_ws_def)
next
  case (Cons q qs)
  have 1: "parse_pair (dumps_pair p @ '', '' @ join '', '' (map dumps_pair (q # qs)) @ '']'' @ rest) =
      Some (p, '', '' @ join '', '' (map dumps_pair (q # qs)) @ '']'' @ rest)"
    using Cons.prems by (intro parse_pair_dumps) simp_all
  have 2: "parse_items (join '', '' (map dumps_pair (q # qs)) @ '']'' @ rest) = Some (q # qs, rest)"
    using Cons.prems by (intro Cons.IH) simp
  show ?case
    using 1 2
    by (subst parse_items.simps) (simp add: skip_ws_def parse_items_space)
qed

lemma dumps_pair_head: "\<exists>t. dumps_pair p = CHR ''['' # t"
  by (simp add: dumps_pair_def)

lemma join_head: "\<exists>t. join '', '' (map dumps_pair (p # ps)) = CHR ''['' # t"
  using dumps_pair_head [of p] by (cases ps) auto

text \<open>
  C4, as amended. For every ordered list of header pairs, duplicates of names included,
  in whose names and values no high surrogate code point is directly followed by a low
  surrogate code point, decoding the serialized text gives back exactly the list, in
  order.
\<close>

theorem headers_round_trip:
  assumes "list_all (\<lambda>p. json_safe (fst p) \<and> json_safe (snd p)) headers"
  shows "deserialize_headers (serialize_headers headers) = Some headers"
proof (cases headers)
  case Nil
  then show ?thesis
    by (simp add: deserialize_headers_def serialize_headers_def expect_here skip_ws_def)
next
  case (Cons p ps)
  obtain t where t: "join '', '' (map dumps_pair (p # ps)) = CHR ''['' # t"
    using join_head by blast
  have items: "parse_items (join '', '' (map dumps_pair (p # ps)) @ '']'' @ []) = Some (p # ps, [])"
    using assms unfolding Cons by (rule parse_items_join)
  have close: "expect CHR '']'' (join '', '' (map dumps_pair (p # ps)) @ '']'') = None"
    unfolding t by (simp add: expect_other)
  have "deserialize_headers (CHR ''['' # join '', '' (map dumps_pair (p # ps)) @ '']'') =
      Some (p # ps)"
    unfolding deserialize_headers_def
    using items close by (simp add: expect_here skip_ws_def del: list.map)
  then show ?thesis
    unfolding Cons serialize_headers_def by simp
qed

lemmas serialize_eval = serialize_headers_def dumps_pair_def encode_str_def escape_char_def
  u_escape_def hex4_def hex_digit_def Let_def char_of_def bit_0

lemmas deserialize_eval = deserialize_headers_def parse_items.simps expect_def skip_ws_def
  is_ws_def parse_string_def parse_pair_def unescape_def hex4_value_def hex_value_def
  short_escape_def cons_char_def is_high_surrogate_def is_low_surrogate_def dquote_def
  backslash_def

theorem headers_round_trip_witness:
  "list_all (\<lambda>p. json_safe (fst p) \<and> json_safe (snd p)) example_headers \<and>
   deserialize_headers (serialize_headers example_headers) = Some example_headers"
proof -
  have safe: "list_all (\<lambda>p. json_safe (fst p) \<and> json_safe (snd p)) example_headers"
    by (simp add: example_headers_def is_high_surrogate_def is_low_surrogate_def)
  show ?thesis
    using headers_round_trip [OF safe] safe by simp
qed

text \<open>
  The claim as stated (every list round-trips) fails for a value that spells a surrogate
  pair as two code points: it is serialized to the same text as the value with the one
  code point U+1F600, so no decoder can return both, and \<^verbatim>\<open>json.loads\<close> returns the
  latter.
\<close>

theorem headers_surrogate_pair_counterexample:
  "serialize_headers [([0x58], [0xD83D, 0xDE00])] = serialize_headers [([0x58], [0x1F600])] \<and>
   deserialize_headers (serialize_headers [([0x58], [0xD83D, 0xDE00])]) =
     Some [([0x58], [0x1F600])] \<and>
   [([0x58], [0xD83D, 0xDE00])] \<noteq> [([0x58 :: nat], [0x1F600 :: nat])]"
  by (simp add: serialize_eval deserialize_eval)

end
